theory Spec2Isabelle
  imports Main "HOL-Library.Sublist" "HOL-Library.Multiset" "HOL-Library.AList"
    "HOL-Library.Log_Nat"
begin

section \<open>Python values\<close>

text \<open>
  Exceptions carry the text that \<^verbatim>\<open>str(e)\<close> returns. \<open>ExternalError\<close> stands
  for any exception raised inside a library the repository calls (the document
  partitioner, the sentence splitter, the embedding model, a websocket).
\<close>

datatype exn =
    ValueError string
  | KeyError string
  | AttributeError string
  | ExternalError string

fun str_exn :: "exn \<Rightarrow> string" where
  "str_exn (ValueError msg) = msg"
| "str_exn (KeyError key) = [CHR 0x27] @ key @ [CHR 0x27]"
| "str_exn (AttributeError msg) = msg"
| "str_exn (ExternalError msg) = msg"

text \<open>
  JSON-like values, and dicts as association lists in insertion order. Storing a key
  (\<^const>\<open>AList.update\<close>) replaces the value in place or appends the pair, as a Python
  dict does; \<^const>\<open>map_of\<close> is the lookup.
\<close>

datatype pyval =
    VNone
  | VBool bool
  | VInt int
  | VStr string
  | VList "pyval list"
  | VDict "(string \<times> pyval) list"

type_synonym pydict = "(string \<times> pyval) list"

definition str_list :: "string list \<Rightarrow> pyval" where
  "str_list xs = VList (map VStr xs)"

text \<open>
  A text is a Python \<^verbatim>\<open>str\<close> whose code points are below 256; each
  \<^typ>\<open>char\<close> is one code point.

  \<^verbatim>\<open>str.split()\<close> with no argument: the maximal runs of characters that are not
  whitespace. The whitespace code points below 256 are 9 to 13
  (\<^verbatim>\<open>\t \n \v \f \r\<close>), the separators 28 to 31, the space 32, the next-line
  control 133 and the no-break space 160.
\<close>

definition is_space :: "char \<Rightarrow> bool" where
  "is_space c =
     (let n = (of_char c :: nat)
      in (9 \<le> n \<and> n \<le> 13) \<or> (28 \<le> n \<and> n \<le> 32) \<or> n = 133 \<or> n = 160)"

fun split_from :: "string \<Rightarrow> string \<Rightarrow> string list" where
  "split_from word [] = (if word = [] then [] else [word])"
| "split_from word (c # cs) =
     (if is_space c
      then (if word = [] then split_from [] cs else word # split_from [] cs)
      else split_from (word @ [c]) cs)"

definition py_split :: "string \<Rightarrow> string list" where
  "py_split s = split_from [] s"

text \<open>\<^verbatim>\<open>sep.join(xs)\<close>\<close>

fun join :: "string \<Rightarrow> string list \<Rightarrow> string" where
  "join sep [] = []"
| "join sep [x] = x"
| "join sep (x # y # ys) = x @ sep @ join sep (y # ys)"

section \<open>Domain classifier (preprocessing/classifiers/domain\_classifier.py)\<close>

text \<open>
  \<^verbatim>\<open>str.lower\<close> on the code points below 256: the letters A to Z and the
  accented capitals 192 to 222 (the multiplication sign 215 apart) move up by 32; every
  other code point stays.
\<close>

definition lower_char :: "char \<Rightarrow> char" where
  "lower_char c =
     (let n = (of_char c :: nat)
      in if (65 \<le> n \<and> n \<le> 90) \<or> (192 \<le> n \<and> n \<le> 222 \<and> n \<noteq> 215)
         then char_of (n + 32) else c)"

definition lower :: "string \<Rightarrow> string" where
  "lower text = map lower_char text"

text \<open>The substring test \<^verbatim>\<open>keyword in text_lower\<close>.\<close>

fun contains :: "string \<Rightarrow> string \<Rightarrow> bool" where
  "contains keyword [] = (keyword = [])"
| "contains keyword (c # cs) = (prefix keyword (c # cs) \<or> contains keyword cs)"

text \<open>The class attribute \<^verbatim>\<open>TECH_DOMAINS\<close>, a dict in insertion order.\<close>

definition TECH_DOMAINS :: "(string \<times> string list) list" where
  "TECH_DOMAINS =
   [(''software'',
       [''algorithm'', ''software'', ''computer'', ''processor'', ''application'',
        ''program'', ''code'', ''data'', ''server'', ''database'', ''interface'',
        ''api'', ''network'', ''cloud'', ''machine learning'', ''artificial intelligence'']),
    (''mechanical'',
       [''mechanism'', ''device'', ''apparatus'', ''structure'', ''assembly'',
        ''component'', ''gear'', ''motor'', ''bearing'', ''valve'', ''actuator'',
        ''mechanical'', ''engine'', ''machine'', ''tool'']),
    (''electrical'',
       [''circuit'', ''electrical'', ''electronic'', ''signal'', ''voltage'',
        ''current'', ''power'', ''transistor'', ''semiconductor'', ''microprocessor'',
        ''integrated circuit'', ''pcb'', ''conductor'', ''capacitor'', ''resistor'']),
    (''chemical'',
       [''compound'', ''composition'', ''reaction'', ''molecule'', ''chemical'',
        ''synthesis'', ''catalyst'', ''polymer'', ''solvent'', ''reagent'',
        ''formulation'', ''mixture'', ''solution'', ''substance'']),
    (''biotechnology'',
       [''protein'', ''gene'', ''cell'', ''biological'', ''organism'', ''dna'',
        ''rna'', ''enzyme'', ''antibody'', ''bacteria'', ''virus'', ''genetic'',
        ''biotechnology'', ''genome'', ''peptide'']),
    (''medical'',
       [''treatment'', ''diagnosis'', ''therapeutic'', ''patient'', ''medical'',
        ''clinical'', ''disease'', ''therapy'', ''pharmaceutical'', ''drug'',
        ''medicine'', ''surgical'', ''healthcare'', ''diagnostic'']),
    (''telecommunications'',
       [''wireless'', ''communication'', ''antenna'', ''frequency'', ''transmission'',
        ''receiver'', ''transmitter'', ''signal processing'', ''modulation'',
        ''bandwidth'', ''cellular'', ''5g'', ''radio'']),
    (''optics'',
       [''optical'', ''laser'', ''light'', ''lens'', ''photon'', ''beam'',
        ''wavelength'', ''spectrum'', ''imaging'', ''camera'', ''display''])]"

text \<open>\<^verbatim>\<open>sum(1 for keyword in keywords if keyword in text_lower)\<close>\<close>

definition count_matches :: "string list \<Rightarrow> string \<Rightarrow> nat" where
  "count_matches keywords text_lower =
     length (filter (\<lambda>keyword. contains keyword text_lower) keywords)"

text \<open>
  The loop over \<^verbatim>\<open>TECH_DOMAINS.items()\<close> that fills \<^verbatim>\<open>domain_scores\<close>:
  the keys are distinct, so the dict holds the qualifying domains in table order.
\<close>

fun score_domains :: "(string \<times> string list) list \<Rightarrow> string \<Rightarrow> int \<Rightarrow> (string \<times> nat) list" where
  "score_domains [] text_lower min_keywords = []"
| "score_domains ((domain, keywords) # rest) text_lower min_keywords =
     (let matches = count_matches keywords text_lower in
      if int matches \<ge> min_keywords
      then (domain, matches) # score_domains rest text_lower min_keywords
      else score_domains rest text_lower min_keywords)"

text \<open>
  \<^verbatim>\<open>sorted(items, key=lambda x: x[1], reverse=True)\<close> is a stable sort by
  descending score; \<^const>\<open>sort_key\<close> is stable, so sorting by the negated score
  gives the same list.
\<close>

definition classify :: "string \<Rightarrow> int \<Rightarrow> string list" where
  "classify text min_keywords =
     (let text_lower = lower text;
          domain_scores = score_domains TECH_DOMAINS text_lower min_keywords;
          sorted_domains = sort_key (\<lambda>x. - int (snd x)) domain_scores;
          domains = map fst sorted_domains
      in if domains = [] then [''general''] else domains)"

text \<open>The number of keywords of a domain that occur in the lower-cased text.\<close>

definition keyword_matches :: "string \<Rightarrow> string \<Rightarrow> nat" where
  "keyword_matches text domain =
     (case map_of TECH_DOMAINS domain of
        None \<Rightarrow> 0
      | Some keywords \<Rightarrow> count_matches keywords (lower text))"

text \<open>The local dict \<^verbatim>\<open>cpc_mapping\<close> of \<^verbatim>\<open>get_cpc_hints\<close>.\<close>

definition cpc_mapping :: "(string \<times> string list) list" where
  "cpc_mapping =
   [(''software'', [''G06F'']),
    (''mechanical'', [''F16'']),
    (''electrical'', [''H01'', ''H02'']),
    (''chemical'', [''C07'', ''C08'']),
    (''biotechnology'', [''C12'']),
    (''medical'', [''A61'']),
    (''telecommunications'', [''H04'']),
    (''optics'', [''G02''])]"

text \<open>The loop \<^verbatim>\<open>for domain in domains: if domain in cpc_mapping: cpc_hints.extend(...)\<close>.\<close>

fun extend_hints :: "string list \<Rightarrow> string list \<Rightarrow> string list" where
  "extend_hints cpc_hints [] = cpc_hints"
| "extend_hints cpc_hints (domain # domains) =
     (case map_of cpc_mapping domain of
        Some hints \<Rightarrow> extend_hints (cpc_hints @ hints) domains
      | None \<Rightarrow> extend_hints cpc_hints domains)"

text \<open>
  \<^verbatim>\<open>list(set(cpc_hints))\<close> lists the distinct hints in the iteration order of a
  Python set, which depends on the string hashes of the process. That order is a
  parameter \<open>set_order\<close> of the model; \<open>set_listing\<close> says what every such
  order satisfies.
\<close>

definition set_listing :: "(string list \<Rightarrow> string list) \<Rightarrow> bool" where
  "set_listing set_order = (\<forall>xs. set (set_order xs) = set xs \<and> distinct (set_order xs))"

definition get_cpc_hints :: "(string list \<Rightarrow> string list) \<Rightarrow> string list \<Rightarrow> string list" where
  "get_cpc_hints set_order domains = set_order (extend_hints [] domains)"

text \<open>The domains that reach the threshold, ranked, before the \<^verbatim>\<open>'general'\<close> fallback.\<close>

definition ranked :: "string \<Rightarrow> int \<Rightarrow> string list" where
  "ranked text k =
     map fst (sort_key (\<lambda>x. - int (snd x)) (score_domains TECH_DOMAINS (lower text) k))"

section \<open>Connection manager (api/documents/websocket.py)\<close>

text \<open>
  \<^verbatim>\<open>active_connections\<close> maps a document id to a Python set of websockets. A set
  is a duplicate-free list; its order is the set's iteration order, on which nothing
  below depends.
\<close>

type_synonym 'c registry = "string \<rightharpoonup> 'c list"

definition set_add :: "'c \<Rightarrow> 'c list \<Rightarrow> 'c list" where
  "set_add x s = (if x \<in> set s then s else s @ [x])"

definition set_discard :: "'c \<Rightarrow> 'c list \<Rightarrow> 'c list" where
  "set_discard x s = removeAll x s"

text \<open>The connections registered for a document id; none when the id has no entry.\<close>

definition connections :: "'c registry \<Rightarrow> string \<Rightarrow> 'c list" where
  "connections active_connections document_id =
     (case active_connections document_id of None \<Rightarrow> [] | Some s \<Rightarrow> s)"

text \<open>
  \<^verbatim>\<open>connect\<close>: \<^verbatim>\<open>websocket.accept()\<close> is awaited first; \<open>accept\<close> is
  what it does (\<open>Some e\<close>: it raises \<open>e\<close>, which leaves the registry as it was).
\<close>

definition connect :: "exn option \<Rightarrow> 'c \<Rightarrow> string \<Rightarrow> 'c registry \<Rightarrow> exn + 'c registry" where
  "connect accept websocket document_id active_connections =
     (case accept of
        Some e \<Rightarrow> Inl e
      | None \<Rightarrow>
          let active1 = (if active_connections document_id = None
                         then active_connections(document_id \<mapsto> [])
                         else active_connections)
          in Inr (active1(document_id \<mapsto> set_add websocket (connections active1 document_id))))"

definition disconnect :: "'c \<Rightarrow> string \<Rightarrow> 'c registry \<Rightarrow> 'c registry" where
  "disconnect websocket document_id active_connections =
     (case active_connections document_id of
        None \<Rightarrow> active_connections
      | Some s \<Rightarrow>
          let s' = set_discard websocket s
          in if s' = [] then active_connections(document_id := None)
             else active_connections(document_id \<mapsto> s'))"

text \<open>
  The loop of \<^verbatim>\<open>send_progress\<close> over the copy of the set. \<open>send_raises c data\<close>
  says whether \<^verbatim>\<open>c.send_json(data)\<close> raises; \<open>calls\<close> records every
  \<^verbatim>\<open>send_json\<close> call in order.
\<close>

fun send_to_all ::
  "('c \<Rightarrow> 'd \<Rightarrow> bool) \<Rightarrow> string \<Rightarrow> 'd \<Rightarrow> 'c list \<Rightarrow> 'c registry \<times> ('c \<times> 'd) list
     \<Rightarrow> 'c registry \<times> ('c \<times> 'd) list" where
  "send_to_all send_raises document_id data [] (active_connections, calls) =
     (active_connections, calls)"
| "send_to_all send_raises document_id data (connection # rest) (active_connections, calls) =
     send_to_all send_raises document_id data rest
       (if send_raises connection data
        then disconnect connection document_id active_connections
        else active_connections,
        calls @ [(connection, data)])"

definition send_progress ::
  "('c \<Rightarrow> 'd \<Rightarrow> bool) \<Rightarrow> string \<Rightarrow> 'd \<Rightarrow> 'c registry \<Rightarrow> 'c registry \<times> ('c \<times> 'd) list" where
  "send_progress send_raises document_id data active_connections =
     (case active_connections document_id of
        None \<Rightarrow> (active_connections, [])
      | Some s \<Rightarrow> send_to_all send_raises document_id data s (active_connections, []))"

text \<open>The operations a transport handler and the pipeline apply to the manager.\<close>

datatype ('c, 'd) registry_op =
    Connect 'c string "exn option"
  | Disconnect 'c string
  | SendProgress string 'd "'c \<Rightarrow> 'd \<Rightarrow> bool"

fun apply_op :: "'c registry \<Rightarrow> ('c, 'd) registry_op \<Rightarrow> 'c registry" where
  "apply_op active_connections (Connect websocket document_id accept) =
     (case connect accept websocket document_id active_connections of
        Inl e \<Rightarrow> active_connections
      | Inr active' \<Rightarrow> active')"
| "apply_op active_connections (Disconnect websocket document_id) =
     disconnect websocket document_id active_connections"
| "apply_op active_connections (SendProgress document_id data send_raises) =
     fst (send_progress send_raises document_id data active_connections)"

definition run_ops :: "('c, 'd) registry_op list \<Rightarrow> 'c registry" where
  "run_ops ops = foldl apply_op Map.empty ops"

text \<open>Every document id present in the map has a non-empty set of connections.\<close>

definition registry_inv :: "'c registry \<Rightarrow> bool" where
  "registry_inv active_connections =
     (\<forall>document_id s. active_connections document_id = Some s \<longrightarrow> s \<noteq> [] \<and> distinct s)"

section \<open>Embedder (preprocessing/embedders/patent\_embedder.py)\<close>

text \<open>
  The loop \<^verbatim>\<open>for i in range(0, len(texts), batch_size)\<close> of \<^verbatim>\<open>_generate_batch\<close>,
  for a positive step. \<open>embed_batch\<close> is the model's
  \<^verbatim>\<open>get_text_embedding_batch\<close>, which may raise.
\<close>

function batch_loop ::
  "(string list \<Rightarrow> exn + 'v list) \<Rightarrow> string list \<Rightarrow> nat \<Rightarrow> nat \<Rightarrow> 'v list \<Rightarrow> exn + 'v list" where
  "batch_loop embed_batch texts batch_size i all_embeddings =
     (if 0 < batch_size \<and> i < length texts
      then (case embed_batch (take batch_size (drop i texts)) of
              Inl e \<Rightarrow> Inl e
            | Inr batch_embeddings \<Rightarrow>
                batch_loop embed_batch texts batch_size (i + batch_size)
                  (all_embeddings @ batch_embeddings))
      else Inr all_embeddings)"
  by pat_completeness auto
termination
  by (relation "measure (\<lambda>(embed_batch, texts, batch_size, i, all_embeddings). length texts - i)")
    auto

declare batch_loop.simps [simp del]

text \<open>
  \<^verbatim>\<open>range\<close> raises \<^verbatim>\<open>ValueError\<close> for a zero step and is empty for a
  negative one (the start 0 is not above the stop).
\<close>

definition generate_batch :: "(string list \<Rightarrow> exn + 'v list) \<Rightarrow> string list \<Rightarrow> int \<Rightarrow> exn + 'v list" where
  "generate_batch embed_batch texts batch_size =
     (if batch_size = 0 then Inl (ValueError ''range() arg 3 must not be zero'')
      else if batch_size < 0 then Inr []
      else batch_loop embed_batch texts (nat batch_size) 0 [])"

definition generate_embeddings ::
  "(string list \<Rightarrow> exn + 'v list) \<Rightarrow> string list \<Rightarrow> int \<Rightarrow> exn + 'v list" where
  "generate_embeddings embed_batch texts batch_size =
     (if texts = [] then Inr [] else generate_batch embed_batch texts batch_size)"

section \<open>Chunker (preprocessing/chunkers/llama\_chunker.py)\<close>

text \<open>
  \<^verbatim>\<open>{**base, k1: v1, ...}\<close>: the entries of \<open>base\<close> with the listed keys stored
  after them, in order.
\<close>

definition dict_merge :: "pydict \<Rightarrow> (string \<times> pyval) list \<Rightarrow> pydict" where
  "dict_merge base entries = foldl (\<lambda>d (k, v). AList.update k v d) base entries"

text \<open>
  Token estimate. \<^verbatim>\<open>words * 1.33\<close> is a product of binary64 floats: the literal
  \<^verbatim>\<open>1.33\<close> denotes the double \<open>748723438050345 / 2^49\<close>, the word count is
  converted to a double, and the exact product is rounded to the nearest double, ties to
  even. \<open>double_of\<close> is that rounding for the values met here (zero, and the normal
  range from 1 upwards); \<^verbatim>\<open>int(...)\<close> truncates toward zero.
\<close>

definition float_1_33 :: rat where
  "float_1_33 = 748723438050345 / 2 ^ 49"

definition round_half_even :: "rat \<Rightarrow> int" where
  "round_half_even r =
     (let f = \<lfloor>r\<rfloor>; d = r - of_int f
      in if d < 1 / 2 then f else if 1 / 2 < d then f + 1 else if even f then f else f + 1)"

definition pow2 :: "int \<Rightarrow> rat" where
  "pow2 e = (if 0 \<le> e then 2 ^ nat e else 1 / 2 ^ nat (- e))"

definition double_of :: "rat \<Rightarrow> rat" where
  "double_of x =
     (let e = bitlen \<lfloor>x\<rfloor> - 53
      in of_int (round_half_even (x * pow2 (- e))) * pow2 e)"

definition py_int :: "rat \<Rightarrow> int" where
  "py_int x = (if 0 \<le> x then \<lfloor>x\<rfloor> else \<lceil>x\<rceil>)"

definition estimate_tokens :: "string \<Rightarrow> int" where
  "estimate_tokens s =
     (let words = int (length (py_split s))
      in py_int (double_of (double_of (of_int words) * float_1_33)))"

text \<open>
  The estimate as the specification words it, \<^verbatim>\<open>round(word_count * 1.33)\<close>:
  the same product, rounded to the nearest integer (ties to even, as Python's
  \<^verbatim>\<open>round\<close> does).
\<close>

definition rounded_tokens :: "string \<Rightarrow> int" where
  "rounded_tokens s =
     (let words = int (length (py_split s))
      in round_half_even (double_of (double_of (of_int words) * float_1_33)))"

record chunk =
  ch_text :: string
  chunk_index :: int
  section_type :: string
  ch_metadata :: pydict
  token_count :: int

text \<open>A node returned by the sentence splitter.\<close>

record node =
  node_text :: string
  node_id :: string

text \<open>
  The inner loop of \<^verbatim>\<open>chunk_sections\<close>,
  \<^verbatim>\<open>for local_idx, node in enumerate(nodes)\<close>; \<open>n_nodes\<close> is \<^verbatim>\<open>len(nodes)\<close>.
\<close>

fun nodes_to_chunks ::
  "pydict \<Rightarrow> string \<Rightarrow> nat \<Rightarrow> node list \<Rightarrow> int \<Rightarrow> int \<Rightarrow> chunk list" where
  "nodes_to_chunks base_metadata section_name n_nodes [] local_idx chunk_global_index = []"
| "nodes_to_chunks base_metadata section_name n_nodes (nd # rest) local_idx chunk_global_index =
     \<lparr>ch_text = node_text nd,
      chunk_index = chunk_global_index,
      section_type = section_name,
      ch_metadata = dict_merge base_metadata
        [(''section_type'', VStr section_name),
         (''node_id'', VStr (node_id nd)),
         (''local_chunk_index'', VInt local_idx),
         (''total_chunks_in_section'', VInt (int n_nodes))],
      token_count = estimate_tokens (node_text nd)\<rparr>
     # nodes_to_chunks base_metadata section_name n_nodes rest (local_idx + 1) (chunk_global_index + 1)"

text \<open>
  The outer loop over \<^verbatim>\<open>sections.items()\<close>. \<open>splitter text metadata\<close> is
  \<^verbatim>\<open>self.splitter.get_nodes_from_documents([LlamaDocument(text, metadata)])\<close>.
\<close>

fun chunk_sections_loop ::
  "(string \<Rightarrow> pydict \<Rightarrow> exn + node list) \<Rightarrow> pydict \<Rightarrow> (string \<times> string list) list
     \<Rightarrow> chunk list \<Rightarrow> int \<Rightarrow> exn + chunk list" where
  "chunk_sections_loop splitter base_metadata [] all_chunks chunk_global_index = Inr all_chunks"
| "chunk_sections_loop splitter base_metadata ((section_name, section_texts) # rest)
       all_chunks chunk_global_index =
     (if section_texts = []
      then chunk_sections_loop splitter base_metadata rest all_chunks chunk_global_index
      else
        let section_text = join [CHR 0x0A, CHR 0x0A] section_texts in
        case splitter section_text
               (dict_merge base_metadata [(''section_type'', VStr section_name)]) of
          Inl e \<Rightarrow> Inl e
        | Inr nodes \<Rightarrow>
            chunk_sections_loop splitter base_metadata rest
              (all_chunks @
                 nodes_to_chunks base_metadata section_name (length nodes) nodes 0 chunk_global_index)
              (chunk_global_index + int (length nodes)))"

definition chunk_sections ::
  "(string \<Rightarrow> pydict \<Rightarrow> exn + node list) \<Rightarrow> (string \<times> string list) list \<Rightarrow> pydict
     \<Rightarrow> exn + chunk list" where
  "chunk_sections splitter sections base_metadata =
     chunk_sections_loop splitter base_metadata sections [] 0"

fun type_name :: "pyval \<Rightarrow> string" where
  "type_name VNone = ''NoneType''"
| "type_name (VBool b) = ''bool''"
| "type_name (VInt i) = ''int''"
| "type_name (VStr s) = ''str''"
| "type_name (VList xs) = ''list''"
| "type_name (VDict d) = ''dict''"

text \<open>
  \<^verbatim>\<open>chunk_tables\<close>, the loop \<^verbatim>\<open>for idx, table in enumerate(tables)\<close>.
  \<^verbatim>\<open>table['text']\<close> raises \<^verbatim>\<open>KeyError\<close> when the key is missing, and
  \<^verbatim>\<open>_estimate_tokens\<close> raises \<^verbatim>\<open>AttributeError\<close> on a text that is no string.
\<close>

fun chunk_tables_from :: "pydict \<Rightarrow> pydict list \<Rightarrow> int \<Rightarrow> exn + chunk list" where
  "chunk_tables_from base_metadata [] idx = Inr []"
| "chunk_tables_from base_metadata (table # rest) idx =
     (case map_of table ''text'' of
        None \<Rightarrow> Inl (KeyError ''text'')
      | Some (VStr t) \<Rightarrow>
          (case chunk_tables_from base_metadata rest (idx + 1) of
             Inl e \<Rightarrow> Inl e
           | Inr table_chunks \<Rightarrow>
               Inr (\<lparr>ch_text = t,
                     chunk_index = idx,
                     section_type = ''table'',
                     ch_metadata = dict_merge base_metadata
                       [(''section_type'', VStr ''table''),
                        (''table_index'', VInt idx),
                        (''table_metadata'',
                           (case map_of table ''metadata'' of None \<Rightarrow> VDict [] | Some m \<Rightarrow> m))],
                     token_count = estimate_tokens t\<rparr> # table_chunks))
      | Some v \<Rightarrow>
          Inl (AttributeError
                 ([CHR 0x27] @ type_name v @ [CHR 0x27] @ '' object has no attribute ''
                    @ [CHR 0x27] @ ''split'' @ [CHR 0x27])))"

definition chunk_tables :: "pydict list \<Rightarrow> pydict \<Rightarrow> exn + chunk list" where
  "chunk_tables tables base_metadata = chunk_tables_from base_metadata tables 0"

text \<open>
  The section names and piece texts that one section contributes, in split order: what
  the splitter returns for the joined section text.
\<close>

definition section_pieces ::
  "(string \<Rightarrow> pydict \<Rightarrow> exn + node list) \<Rightarrow> pydict \<Rightarrow> string \<times> string list
     \<Rightarrow> (string \<times> string) list" where
  "section_pieces splitter base_metadata section =
     (case splitter (join [CHR 0x0A, CHR 0x0A] (snd section))
             (dict_merge base_metadata [(''section_type'', VStr (fst section))]) of
        Inl e \<Rightarrow> []
      | Inr nodes \<Rightarrow> map (\<lambda>nd. (fst section, node_text nd)) nodes)"

text \<open>Chunk indices that count up from zero along the list.\<close>

definition contiguous_from_zero :: "chunk list \<Rightarrow> bool" where
  "contiguous_from_zero cs = (map chunk_index cs = map int [0..<length cs])"

text \<open>
  \<^verbatim>\<open>extract_technical_terms\<close>: capitalised words that do not follow a word ending in
  a full stop, first occurrences only, at most \<open>max_terms\<close> of them.
\<close>

definition strip_chars :: "string \<Rightarrow> string \<Rightarrow> string" where
  "strip_chars cs w =
     rev (dropWhile (\<lambda>c. c \<in> set cs) (rev (dropWhile (\<lambda>c. c \<in> set cs) w)))"

definition isupper :: "char \<Rightarrow> bool" where
  "isupper c =
     (let n = (of_char c :: nat)
      in (65 \<le> n \<and> n \<le> 90) \<or> (192 \<le> n \<and> n \<le> 222 \<and> n \<noteq> 215))"

definition endswith_dot :: "string \<Rightarrow> bool" where
  "endswith_dot w = (w \<noteq> [] \<and> last w = CHR ''.'')"

fun terms_from :: "string option \<Rightarrow> string list \<Rightarrow> string list" where
  "terms_from prev [] = []"
| "terms_from prev (word # rest) =
     (let clean_word = strip_chars ''.,;:!?()'' word in
      case prev of
        None \<Rightarrow> terms_from (Some word) rest
      | Some previous \<Rightarrow>
          if 2 < length clean_word \<and> (case clean_word of [] \<Rightarrow> False | c # _ \<Rightarrow> isupper c)
          then (if endswith_dot previous then terms_from (Some word) rest
                else clean_word # terms_from (Some word) rest)
          else terms_from (Some word) rest)"

text \<open>\<^verbatim>\<open>list(dict.fromkeys(xs))\<close>: the first occurrence of each element, in order.\<close>

definition fromkeys :: "string list \<Rightarrow> string list" where
  "fromkeys xs = rev (remdups (rev xs))"

text \<open>The slice \<^verbatim>\<open>xs[:n]\<close>.\<close>

definition slice_to :: "'a list \<Rightarrow> int \<Rightarrow> 'a list" where
  "slice_to xs n = (if 0 \<le> n then take (nat n) xs else take (length xs - nat (- n)) xs)"

definition extract_technical_terms :: "string \<Rightarrow> int \<Rightarrow> string list" where
  "extract_technical_terms s max_terms =
     slice_to (fromkeys (terms_from None (py_split s))) max_terms"

section \<open>Pipeline (preprocessing/pipeline.py)\<close>

datatype ProcessingStage =
  EXTRACTING | CLASSIFYING | CHUNKING | EMBEDDING | STORING | COMPLETE | FAILED

fun stage_value :: "ProcessingStage \<Rightarrow> string" where
  "stage_value EXTRACTING = ''extracting''"
| "stage_value CLASSIFYING = ''classifying''"
| "stage_value CHUNKING = ''chunking''"
| "stage_value EMBEDDING = ''embedding''"
| "stage_value STORING = ''storing''"
| "stage_value COMPLETE = ''complete''"
| "stage_value FAILED = ''failed''"

text \<open>The dict that \<^verbatim>\<open>_update_progress\<close> passes to the callback.\<close>

record progress_event =
  stage :: string
  progress :: int
  error :: "string option"

text \<open>What the extractor returns (extractors/base.py).\<close>

record extracted_content =
  sections :: "(string \<times> string list) list"
  tables :: "pydict list"
  ex_metadata :: pydict
  full_text :: string
  has_tables :: bool

text \<open>
  The rows of the store. Only the columns of \<^verbatim>\<open>Document\<close> that the pipeline reads
  or writes are kept; times are numbers.
\<close>

record document =
  processing_status :: string
  processing_error :: "string option"
  processed_at :: "nat option"
  doc_metadata :: pydict

record 'v document_chunk =
  dc_document_id :: string
  dc_chunk_text :: string
  dc_chunk_index :: int
  dc_embedding :: 'v
  dc_section_type :: string
  dc_token_count :: int
  dc_importance_score :: rat
  dc_metadata :: pydict

text \<open>
  The database session: the documents by id, the chunk rows already committed, and the
  rows given to \<^verbatim>\<open>db.add\<close> that the next \<^verbatim>\<open>db.commit()\<close> writes.
\<close>

record 'v session =
  documents :: "string \<rightharpoonup> document"
  chunks :: "'v document_chunk list"
  pending :: "'v document_chunk list"

text \<open>
  The state a run works on: the session, and the events handed to the progress callback
  so far.
\<close>

record 'v run_state =
  db :: "'v session"
  published :: "progress_event list"

text \<open>
  The collaborators a pipeline is built from: \<^verbatim>\<open>extractor.extract\<close>, the
  chunker's \<^verbatim>\<open>splitter.get_nodes_from_documents\<close>, the embedding model's
  \<^verbatim>\<open>get_text_embedding_batch\<close> with its name and dimension, and the iteration
  order of the Python set in \<^verbatim>\<open>get_cpc_hints\<close>.
\<close>

record 'v pipeline =
  extractor_extract :: "string \<Rightarrow> exn + extracted_content"
  get_nodes :: "string \<Rightarrow> pydict \<Rightarrow> exn + node list"
  get_text_embedding_batch :: "string list \<Rightarrow> exn + 'v list"
  model_name :: string
  dimension :: int
  hint_order :: "string list \<Rightarrow> string list"

text \<open>
  A step of a run takes the state and returns a value or the exception it raised, with
  the state it leaves in either case. \<open>and_then\<close> runs the next statement unless the
  first raised.
\<close>

type_synonym ('v, 'a) step = "'v run_state \<Rightarrow> (exn + 'a) \<times> 'v run_state"

definition returns :: "'a \<Rightarrow> ('v, 'a) step" where
  "returns x s = (Inr x, s)"

definition raise :: "exn \<Rightarrow> ('v, 'a) step" where
  "raise e s = (Inl e, s)"

definition call :: "exn + 'a \<Rightarrow> ('v, 'a) step" where
  "call r s = (r, s)"

definition and_then :: "('v, 'a) step \<Rightarrow> ('a \<Rightarrow> ('v, 'b) step) \<Rightarrow> ('v, 'b) step" where
  "and_then m f s = (case m s of (Inl e, s') \<Rightarrow> (Inl e, s') | (Inr a, s') \<Rightarrow> f a s')"

definition modify_db :: "('v session \<Rightarrow> 'v session) \<Rightarrow> ('v, unit) step" where
  "modify_db f s = (Inr (), s\<lparr>db := f (db s)\<rparr>)"

text \<open>
  \<^verbatim>\<open>_update_progress\<close>: nothing happens without a callback; with one, the event is
  handed to it, and the callback may raise (\<open>Some e\<close>).
\<close>

definition update_progress ::
  "(progress_event \<Rightarrow> exn option) option \<Rightarrow> ProcessingStage \<Rightarrow> int \<Rightarrow> string option
     \<Rightarrow> ('v, unit) step" where
  "update_progress callback stg prog err s =
     (case callback of
        None \<Rightarrow> (Inr (), s)
      | Some cb \<Rightarrow>
          let data = \<lparr>stage = stage_value stg, progress = prog, error = err\<rparr>;
              s' = s\<lparr>published := published s @ [data]\<rparr>
          in (case cb data of None \<Rightarrow> (Inr (), s') | Some e \<Rightarrow> (Inl e, s')))"

text \<open>Session operations.\<close>

definition commit :: "'v session \<Rightarrow> 'v session" where
  "commit d = d\<lparr>chunks := chunks d @ pending d, pending := []\<rparr>"

definition add_all :: "'v document_chunk list \<Rightarrow> 'v session \<Rightarrow> 'v session" where
  "add_all rows d = d\<lparr>pending := pending d @ rows\<rparr>"

definition update_document :: "string \<Rightarrow> (document \<Rightarrow> document) \<Rightarrow> 'v session \<Rightarrow> 'v session" where
  "update_document document_id f d =
     (case documents d document_id of
        None \<Rightarrow> d
      | Some document \<Rightarrow> d\<lparr>documents := (documents d)(document_id \<mapsto> f document)\<rparr>)"

text \<open>The row built for one chunk and its embedding in stage 5.\<close>

definition db_chunk :: "string \<Rightarrow> chunk \<times> 'v \<Rightarrow> 'v document_chunk" where
  "db_chunk document_id ce =
     \<lparr>dc_document_id = document_id,
      dc_chunk_text = ch_text (fst ce),
      dc_chunk_index = chunk_index (fst ce),
      dc_embedding = snd ce,
      dc_section_type = section_type (fst ce),
      dc_token_count = token_count (fst ce),
      dc_importance_score = 1,
      dc_metadata = ch_metadata (fst ce)\<rparr>"

text \<open>The dictionary a successful run returns.\<close>

record run_result =
  res_status :: string
  res_document_id :: string
  chunks_created :: nat
  res_domains :: "string list"
  res_has_tables :: bool

text \<open>
  Stage 3 of \<^verbatim>\<open>process_document\<close>: the section chunks followed by the table chunks.
\<close>

definition base_metadata_of :: "string \<Rightarrow> string \<Rightarrow> bool \<Rightarrow> string list \<Rightarrow> string list \<Rightarrow> pydict" where
  "base_metadata_of document_id project_id is_primary domains cpc_hints =
     [(''document_id'', VStr document_id),
      (''project_id'', VStr project_id),
      (''is_primary'', VBool is_primary),
      (''technical_domains'', str_list domains),
      (''cpc_hints'', str_list cpc_hints)]"

definition create_chunks ::
  "(string \<Rightarrow> pydict \<Rightarrow> exn + node list) \<Rightarrow> extracted_content \<Rightarrow> pydict \<Rightarrow> exn + chunk list" where
  "create_chunks split extracted base_metadata =
     (case chunk_sections split (sections extracted) base_metadata of
        Inl e \<Rightarrow> Inl e
      | Inr section_chunks \<Rightarrow>
          (case chunk_tables (tables extracted) base_metadata of
             Inl e \<Rightarrow> Inl e
           | Inr table_chunks \<Rightarrow> Inr (section_chunks @ table_chunks)))"

text \<open>The metadata written on completion.\<close>

definition completed_metadata ::
  "'v pipeline \<Rightarrow> pydict \<Rightarrow> nat \<Rightarrow> string list \<Rightarrow> string list \<Rightarrow> string list \<Rightarrow> bool \<Rightarrow> pydict" where
  "completed_metadata P old total_chunks domains technical_terms cpc_hints tables_found =
     dict_merge old
       [(''total_chunks'', VInt (int total_chunks)),
        (''technical_domains'', str_list domains),
        (''technical_terms'', str_list technical_terms),
        (''cpc_hints'', str_list cpc_hints),
        (''has_tables'', VBool tables_found),
        (''embedding_model'', VStr (model_name P)),
        (''embedding_dimension'', VInt (dimension P))]"

text \<open>
  Stage 5 and the update of the document: the rows are added, the document is marked
  completed with its merged metadata, and the session is committed.
\<close>

definition store_results ::
  "'v pipeline \<Rightarrow> string \<Rightarrow> nat \<Rightarrow> extracted_content \<Rightarrow> string list \<Rightarrow> string list \<Rightarrow> string list
     \<Rightarrow> chunk list \<Rightarrow> 'v list \<Rightarrow> 'v session \<Rightarrow> 'v session" where
  "store_results P document_id now extracted domains technical_terms cpc_hints all_chunks embeddings d =
     commit
       (update_document document_id
          (\<lambda>document. document
             \<lparr>processing_status := ''completed'',
              processed_at := Some now,
              doc_metadata := completed_metadata P (doc_metadata document) (length all_chunks)
                 domains technical_terms cpc_hints (has_tables extracted)\<rparr>)
          (add_all (map (db_chunk document_id) (zip all_chunks embeddings)) d))"

text \<open>The body of the \<^verbatim>\<open>try\<close> block of \<^verbatim>\<open>process_document\<close>.\<close>

definition try_block ::
  "'v pipeline \<Rightarrow> string \<Rightarrow> string \<Rightarrow> string \<Rightarrow> bool \<Rightarrow> (progress_event \<Rightarrow> exn option) option
     \<Rightarrow> nat \<Rightarrow> ('v, run_result) step" where
  "try_block P document_id file_path project_id is_primary progress_callback now =
     (\<lambda>s.
       (case documents (db s) document_id of
          None \<Rightarrow> raise (ValueError (''Document '' @ document_id @ '' not found''))
        | Some document \<Rightarrow>
            and_then (modify_db (\<lambda>d. commit (update_document document_id
                        (\<lambda>document. document\<lparr>processing_status := ''processing''\<rparr>) d)))
           (\<lambda>_. and_then (update_progress progress_callback EXTRACTING 20 None)
           (\<lambda>_. and_then (call (extractor_extract P file_path))
           (\<lambda>extracted. and_then (update_progress progress_callback CLASSIFYING 35 None)
           (\<lambda>_. let domains = classify (full_text extracted) 2;
                    technical_terms = extract_technical_terms (full_text extracted) 20;
                    cpc_hints = get_cpc_hints (hint_order P) domains
                in and_then (update_progress progress_callback CHUNKING 50 None)
           (\<lambda>_. let base_metadata =
                      base_metadata_of document_id project_id is_primary domains cpc_hints
                in and_then (call (create_chunks (get_nodes P) extracted base_metadata))
           (\<lambda>all_chunks. and_then (update_progress progress_callback EMBEDDING 70 None)
           (\<lambda>_. and_then (call (generate_embeddings (get_text_embedding_batch P) (map ch_text all_chunks) 32))
           (\<lambda>embeddings. and_then (update_progress progress_callback STORING 85 None)
           (\<lambda>_. and_then (modify_db (store_results P document_id now extracted domains
                                      technical_terms cpc_hints all_chunks embeddings))
           (\<lambda>_. and_then (update_progress progress_callback COMPLETE 100 None)
           (\<lambda>_. returns
                  \<lparr>res_status = ''success'',
                   res_document_id = document_id,
                   chunks_created = length all_chunks,
                   res_domains = domains,
                   res_has_tables = has_tables extracted\<rparr>)))))))))))) s)"

text \<open>
  The \<^verbatim>\<open>except Exception as e\<close> handler: the document, when there is one, is marked
  failed with \<^verbatim>\<open>str(e)\<close> and committed; the failure is notified; \<open>e\<close> is raised
  again. An exception of the callback leaves the handler in place of \<open>e\<close>.
\<close>

definition except_block ::
  "string \<Rightarrow> (progress_event \<Rightarrow> exn option) option \<Rightarrow> exn \<Rightarrow> ('v, run_result) step" where
  "except_block document_id progress_callback e =
     and_then (modify_db (\<lambda>d.
        case documents d document_id of
          None \<Rightarrow> d
        | Some document \<Rightarrow>
            commit (update_document document_id
              (\<lambda>document. document\<lparr>processing_status := ''failed'',
                                    processing_error := Some (str_exn e)\<rparr>) d)))
    (\<lambda>_. and_then (update_progress progress_callback FAILED 0 (Some (str_exn e)))
    (\<lambda>_. raise e))"

definition process_document ::
  "'v pipeline \<Rightarrow> string \<Rightarrow> string \<Rightarrow> string \<Rightarrow> bool \<Rightarrow> (progress_event \<Rightarrow> exn option) option
     \<Rightarrow> nat \<Rightarrow> ('v, run_result) step" where
  "process_document P document_id file_path project_id is_primary progress_callback now s =
     (case try_block P document_id file_path project_id is_primary progress_callback now s of
        (Inr result, s') \<Rightarrow> (Inr result, s')
      | (Inl e, s') \<Rightarrow> except_block document_id progress_callback e s')"

text \<open>The terminal events of a run.\<close>

definition terminal :: "progress_event \<Rightarrow> bool" where
  "terminal data = (stage data = ''complete'' \<or> stage data = ''failed'')"

text \<open>The keys that \<^verbatim>\<open>process_document\<close> writes into the document's metadata.\<close>

definition derived_keys :: "string list" where
  "derived_keys =
     [''total_chunks'', ''technical_domains'', ''technical_terms'', ''cpc_hints'',
      ''has_tables'', ''embedding_model'', ''embedding_dimension'']"

text \<open>\<open>wp m Q s\<close>: the outcome of running \<open>m\<close> from \<open>s\<close> satisfies \<open>Q\<close>.\<close>

definition wp :: "('v, 'a) step \<Rightarrow> (exn + 'a \<Rightarrow> 'v run_state \<Rightarrow> bool) \<Rightarrow> 'v run_state \<Rightarrow> bool" where
  "wp m Q s = (case m s of (r, s') \<Rightarrow> Q r s')"


section \<open>A small document, for evaluating the definitions\<close>

text \<open>
  A splitter that returns the section text followed by a fixed second piece, and an
  extraction result with one non-empty section, one empty section and one table.
\<close>

definition example_split :: "string \<Rightarrow> pydict \<Rightarrow> exn + node list" where
  "example_split t m =
     Inr [\<lparr>node_text = t, node_id = ''n1''\<rparr>, \<lparr>node_text = ''tail'', node_id = ''n2''\<rparr>]"

definition example_content :: extracted_content where
  "example_content =
     \<lparr>sections = [(''introduction'', [''Alpha beta'']), (''empty'', [])],
      tables = [[(''text'', VStr ''t1 t2'')]],
      ex_metadata = [],
      full_text = ''Code and Data'',
      has_tables = True\<rparr>"

text \<open>
  A pipeline over that document whose embedding of a text is its length, a pipeline whose
  extractor raises, and a store that holds one pending document with an upload-time
  metadata key.
\<close>

definition example_pipeline :: "nat pipeline" where
  "example_pipeline =
     \<lparr>extractor_extract = (\<lambda>path. Inr example_content),
      get_nodes = example_split,
      get_text_embedding_batch = (\<lambda>batch. Inr (map length batch)),
      model_name = ''AI-Growth-Lab/PatentSBERTa'',
      dimension = 768,
      hint_order = remdups\<rparr>"

definition failing_pipeline :: "nat pipeline" where
  "failing_pipeline =
     example_pipeline\<lparr>extractor_extract := (\<lambda>path. Inl (ExternalError ''cannot parse''))\<rparr>"

definition example_document :: document where
  "example_document =
     \<lparr>processing_status = ''pending'',
      processing_error = None,
      processed_at = None,
      doc_metadata = [(''is_primary'', VBool False), (''original_filename'', VStr ''a.pdf'')]\<rparr>"

definition example_state :: "nat run_state" where
  "example_state =
     \<lparr>db = \<lparr>documents = [''d1'' \<mapsto> example_document], chunks = [], pending = []\<rparr>,
      published = []\<rparr>"

text \<open>A callback that delivers every event, and one that raises on \<^verbatim>\<open>complete\<close>.\<close>

definition delivering :: "progress_event \<Rightarrow> exn option" where
  "delivering data = None"

definition raising_on_complete :: "progress_event \<Rightarrow> exn option" where
  "raising_on_complete data =
     (if stage data = ''complete'' then Some (ExternalError ''connection closed'') else None)"

text \<open>A run on that store, for a given pipeline and callback.\<close>

definition example_run ::
  "nat pipeline \<Rightarrow> (progress_event \<Rightarrow> exn option) option \<Rightarrow> (exn + run_result) \<times> nat run_state" where
  "example_run P progress_callback =
     process_document P ''d1'' ''/tmp/a.pdf'' ''p1'' False progress_callback 7 example_state"

section \<open>Properties of the domain classifier\<close>

lemma set_extend_hints:
  "set (extend_hints acc ds) =
     set acc \<union> (\<Union>d\<in>set ds. case map_of cpc_mapping d of None \<Rightarrow> {} | Some hs \<Rightarrow> set hs)"
  by (induction ds arbitrary: acc) (auto split: option.splits)

text \<open>
  Claim C9. \<^verbatim>\<open>get_cpc_hints\<close> yields the same set of hints on the same list of
  domains whatever order the Python set is listed in (so two calls agree as unordered
  sets), and that set is exactly the union of the \<^verbatim>\<open>cpc_mapping\<close> entries of
  the input domains: a domain absent from the mapping contributes nothing, and no hint
  comes from anywhere else.
\<close>

theorem get_cpc_hints_same_set:
  assumes "set_listing order1" and "set_listing order2"
  shows "set (get_cpc_hints order1 domains) = set (get_cpc_hints order2 domains) \<and>
         set (get_cpc_hints order1 domains) =
           (\<Union>d\<in>set domains. case map_of cpc_mapping d of None \<Rightarrow> {} | Some hs \<Rightarrow> set hs) \<and>
         distinct (get_cpc_hints order1 domains)"
  using assms by (simp add: get_cpc_hints_def set_listing_def set_extend_hints)

lemma set_listing_remdups: "set_listing remdups"
  by (simp add: set_listing_def)

lemma set_listing_rev_remdups: "set_listing (\<lambda>xs. rev (remdups xs))"
  by (simp add: set_listing_def)

theorem get_cpc_hints_same_set_witness:
  "set_listing remdups \<and> set_listing (\<lambda>xs. rev (remdups xs)) \<and>
   get_cpc_hints remdups [''electrical'', ''unknown'', ''software'', ''electrical'']
     = [''G06F'', ''H01'', ''H02''] \<and>
   get_cpc_hints (\<lambda>xs. rev (remdups xs)) [''electrical'', ''unknown'', ''software'', ''electrical'']
     = [''H02'', ''H01'', ''G06F''] \<and>
   set (get_cpc_hints remdups [''electrical'', ''unknown'', ''software'', ''electrical''])
     = set (get_cpc_hints (\<lambda>xs. rev (remdups xs)) [''electrical'', ''unknown'', ''software'', ''electrical''])"
proof -
  have a: "get_cpc_hints remdups [''electrical'', ''unknown'', ''software'', ''electrical'']
     = [''G06F'', ''H01'', ''H02'']" by code_simp
  have b: "get_cpc_hints (\<lambda>xs. rev (remdups xs)) [''electrical'', ''unknown'', ''software'', ''electrical'']
     = [''H02'', ''H01'', ''G06F'']" by code_simp
  from get_cpc_hints_same_set [OF set_listing_remdups set_listing_rev_remdups,
      of "[''electrical'', ''unknown'', ''software'', ''electrical'']"]
  show ?thesis using a b set_listing_remdups set_listing_rev_remdups by simp
qed

lemma set_score_domains:
  "set (score_domains tbl t k) =
     {(d, count_matches kws t) | d kws. (d, kws) \<in> set tbl \<and> k \<le> int (count_matches kws t)}"
  by (induction tbl t k rule: score_domains.induct) (auto simp: Let_def)

lemma fst_score_domains_subset:
  "fst ` set (score_domains tbl t k) \<subseteq> fst ` set tbl"
  by (force simp: set_score_domains)

lemma distinct_score_domains:
  "distinct (map fst tbl) \<Longrightarrow> distinct (map fst (score_domains tbl t k))"
proof (induction tbl t k rule: score_domains.induct)
  case (1 t k)
  then show ?case by simp
next
  case (2 d kws rest t k)
  then show ?case
    using fst_score_domains_subset [of rest t k] by (auto simp: Let_def)
qed

lemma distinct_TECH_DOMAINS: "distinct (map fst TECH_DOMAINS)"
  by (simp add: TECH_DOMAINS_def)

lemma keyword_matches_in_table:
  "(d, kws) \<in> set TECH_DOMAINS \<Longrightarrow> keyword_matches text d = count_matches kws (lower text)"
  using distinct_TECH_DOMAINS by (simp add: keyword_matches_def)

lemma scored_entry:
  assumes "x \<in> set (score_domains TECH_DOMAINS (lower text) k)"
  shows "snd x = keyword_matches text (fst x) \<and> fst x \<in> fst ` set TECH_DOMAINS
         \<and> k \<le> int (keyword_matches text (fst x))"
  using assms by (force simp: set_score_domains keyword_matches_in_table)

lemma fst_scored:
  "fst ` set (score_domains TECH_DOMAINS (lower text) k) =
     {d \<in> fst ` set TECH_DOMAINS. k \<le> int (keyword_matches text d)}"
proof (intro set_eqI iffI)
  fix d assume "d \<in> fst ` set (score_domains TECH_DOMAINS (lower text) k)"
  then show "d \<in> {d \<in> fst ` set TECH_DOMAINS. k \<le> int (keyword_matches text d)}"
    using scored_entry by fastforce
next
  fix d assume "d \<in> {d \<in> fst ` set TECH_DOMAINS. k \<le> int (keyword_matches text d)}"
  then obtain kws where in_tbl: "(d, kws) \<in> set TECH_DOMAINS"
    and ge: "k \<le> int (keyword_matches text d)" by auto
  from in_tbl ge have "(d, count_matches kws (lower text)) \<in> set (score_domains TECH_DOMAINS (lower text) k)"
    by (auto simp: set_score_domains keyword_matches_in_table)
  then show "d \<in> fst ` set (score_domains TECH_DOMAINS (lower text) k)" by force
qed

lemma classify_ranked:
  "classify text k = (if ranked text k = [] then [''general''] else ranked text k)"
  by (simp add: classify_def ranked_def Let_def)

lemma set_ranked:
  "set (ranked text k) = {d \<in> fst ` set TECH_DOMAINS. k \<le> int (keyword_matches text d)}"
  by (simp add: ranked_def fst_scored)

lemma distinct_ranked: "distinct (ranked text k)"
proof -
  let ?xs = "score_domains TECH_DOMAINS (lower text) k"
  have "mset (map fst (sort_key (\<lambda>x. - int (snd x)) ?xs)) = mset (map fst ?xs)"
    by simp
  moreover have "distinct (map fst ?xs)"
    by (rule distinct_score_domains [OF distinct_TECH_DOMAINS])
  ultimately show ?thesis
    unfolding ranked_def by (metis mset_eq_imp_distinct_iff)
qed

lemma sorted_ranked:
  "sorted_wrt (\<lambda>a b. keyword_matches text b \<le> keyword_matches text a) (ranked text k)"
proof -
  let ?xs = "score_domains TECH_DOMAINS (lower text) k"
  let ?ys = "sort_key (\<lambda>x. - int (snd x)) ?xs"
  have "sorted (map (\<lambda>x. - int (snd x)) ?ys)" by (rule sorted_sort_key)
  then have "sorted_wrt (\<lambda>x y. - int (snd x) \<le> - int (snd y)) ?ys"
    by (simp add: sorted_map)
  then have "sorted_wrt (\<lambda>x y. keyword_matches text (fst y) \<le> keyword_matches text (fst x)) ?ys"
  proof (rule sorted_wrt_mono_rel [rotated])
    fix x y assume "x \<in> set ?ys" "y \<in> set ?ys" "- int (snd x) \<le> - int (snd y)"
    then show "keyword_matches text (fst y) \<le> keyword_matches text (fst x)"
      using scored_entry [of x "text" k] scored_entry [of y "text" k] by simp
  qed
  then show ?thesis by (simp add: ranked_def sorted_wrt_map)
qed

text \<open>
  Claim C10. \<^verbatim>\<open>classify\<close> never returns the empty list. When no domain of
  \<^verbatim>\<open>TECH_DOMAINS\<close> has at least \<open>min_keywords\<close> of its keywords in the
  lower-cased text, the result is \<^verbatim>\<open>['general']\<close>; otherwise it lists exactly the
  domains that reach the threshold, each once, by descending number of matching keywords.
\<close>

theorem classify_result:
  "classify text min_keywords \<noteq> [] \<and>
   (if \<forall>d \<in> fst ` set TECH_DOMAINS. int (keyword_matches text d) < min_keywords
    then classify text min_keywords = [''general'']
    else set (classify text min_keywords) =
           {d \<in> fst ` set TECH_DOMAINS. min_keywords \<le> int (keyword_matches text d)} \<and>
         distinct (classify text min_keywords) \<and>
         sorted_wrt (\<lambda>a b. keyword_matches text b \<le> keyword_matches text a)
           (classify text min_keywords))"
proof (cases "ranked text min_keywords = []")
  case True
  then have "{d \<in> fst ` set TECH_DOMAINS. min_keywords \<le> int (keyword_matches text d)} = {}"
    using set_ranked [of "text" min_keywords] by simp
  then have "\<forall>d \<in> fst ` set TECH_DOMAINS. int (keyword_matches text d) < min_keywords"
    by auto
  with True show ?thesis by (simp add: classify_ranked)
next
  case False
  then obtain d where "d \<in> set (ranked text min_keywords)"
    by (cases "ranked text min_keywords") auto
  then have "d \<in> fst ` set TECH_DOMAINS" and "min_keywords \<le> int (keyword_matches text d)"
    by (simp_all add: set_ranked)
  then have "\<not> (\<forall>d \<in> fst ` set TECH_DOMAINS. int (keyword_matches text d) < min_keywords)"
    by (meson not_less)
  with False show ?thesis
    using set_ranked [of "text" min_keywords] distinct_ranked [of "text" min_keywords]
      sorted_ranked [of "text" min_keywords]
    by (auto simp: classify_ranked)
qed

theorem classify_result_witness:
  "classify ''The Algorithm runs on a Computer with a laser and a lens and a camera'' 2
     = [''optics'', ''software''] \<and>
   keyword_matches ''The Algorithm runs on a Computer with a laser and a lens and a camera''
     ''optics'' = 3 \<and>
   keyword_matches ''The Algorithm runs on a Computer with a laser and a lens and a camera''
     ''software'' = 2 \<and>
   {d \<in> fst ` set TECH_DOMAINS.
      2 \<le> int (keyword_matches
        ''The Algorithm runs on a Computer with a laser and a lens and a camera'' d)}
     = {''optics'', ''software''} \<and>
   classify ''nothing'' 2 = [''general'']"
proof -
  let ?t = "''The Algorithm runs on a Computer with a laser and a lens and a camera''"
  have c: "classify ?t 2 = [''optics'', ''software'']" by code_simp
  have g: "classify ''nothing'' 2 = [''general'']" by code_simp
  have m1: "keyword_matches ?t ''optics'' = 3" by code_simp
  have m2: "keyword_matches ?t ''software'' = 2" by code_simp
  have "{d \<in> fst ` set TECH_DOMAINS. 2 \<le> int (keyword_matches ?t d)}
          = {''optics'', ''software''}"
    using classify_result [of ?t 2] c by (auto split: if_splits)
  with c g m1 m2 show ?thesis by simp
qed

section \<open>Properties of the connection manager\<close>

lemma connections_disconnect:
  "connections (disconnect c doc reg) d =
     (if d = doc then removeAll c (connections reg doc) else connections reg d)"
  by (auto simp: connections_def disconnect_def set_discard_def Let_def split: option.splits)

lemma send_to_all_result:
  "send_to_all raises doc data cs (reg, calls) = (reg', calls') \<Longrightarrow>
     calls' = calls @ map (\<lambda>c. (c, data)) cs \<and>
     connections reg' doc = filter (\<lambda>c. \<not> (c \<in> set cs \<and> raises c data)) (connections reg doc) \<and>
     (\<forall>d. d \<noteq> doc \<longrightarrow> reg' d = reg d)"
proof (induction cs arbitrary: reg calls)
  case Nil
  then show ?case by simp
next
  case (Cons c cs)
  let ?reg1 = "if raises c data then disconnect c doc reg else reg"
  from Cons.prems have step: "send_to_all raises doc data cs (?reg1, calls @ [(c, data)]) = (reg', calls')"
    by simp
  note ih = Cons.IH [OF step]
  have other: "\<forall>d. d \<noteq> doc \<longrightarrow> ?reg1 d = reg d"
    by (auto simp: disconnect_def Let_def split: option.splits)
  have conn1: "connections ?reg1 doc = filter (\<lambda>x. \<not> (x = c \<and> raises c data)) (connections reg doc)"
    by (auto simp: connections_disconnect removeAll_filter_not_eq intro: filter_cong)
  have "connections reg' doc
      = filter (\<lambda>x. \<not> (x \<in> set cs \<and> raises x data)) (filter (\<lambda>x. \<not> (x = c \<and> raises c data)) (connections reg doc))"
    using ih conn1 by simp
  also have "\<dots> = filter (\<lambda>x. \<not> (x \<in> set (c # cs) \<and> raises x data)) (connections reg doc)"
    by (auto intro: filter_cong)
  finally show ?case using ih other by simp
qed

text \<open>
  Claim C6. One \<^verbatim>\<open>send_progress\<close> calls \<^verbatim>\<open>send_json\<close> once, with the same
  data, on every connection registered for the document id when the call starts, whether or
  not earlier connections raised. Afterwards the registered connections of that id are
  exactly those whose send did not raise, the other ids are untouched, and the function
  returns normally: an exception of \<^verbatim>\<open>send_json\<close> is caught inside the loop, so
  \<^const>\<open>send_progress\<close> has no exceptional result.
\<close>

theorem send_progress_isolates_failures:
  "snd (send_progress send_raises document_id data active_connections)
     = map (\<lambda>c. (c, data)) (connections active_connections document_id) \<and>
   connections (fst (send_progress send_raises document_id data active_connections)) document_id
     = filter (\<lambda>c. \<not> send_raises c data) (connections active_connections document_id) \<and>
   (\<forall>d. d \<noteq> document_id \<longrightarrow>
      fst (send_progress send_raises document_id data active_connections) d = active_connections d)"
proof (cases "active_connections document_id")
  case None
  then show ?thesis by (simp add: send_progress_def connections_def)
next
  case (Some s)
  obtain reg' calls' where r: "send_to_all send_raises document_id data s (active_connections, []) = (reg', calls')"
    by (cases "send_to_all send_raises document_id data s (active_connections, [])") auto
  have conn: "connections active_connections document_id = s"
    using Some by (simp add: connections_def)
  have "filter (\<lambda>c. \<not> (c \<in> set s \<and> send_raises c data)) s = filter (\<lambda>c. \<not> send_raises c data) s"
    by (auto intro: filter_cong)
  with send_to_all_result [OF r] Some r conn show ?thesis
    by (simp add: send_progress_def)
qed

theorem send_progress_isolates_failures_witness:
  "connections [''doc'' \<mapsto> [1::nat, 2, 3]] ''doc'' = [1, 2, 3] \<and>
   snd (send_progress (\<lambda>c d. c = 2) ''doc'' ''event'' [''doc'' \<mapsto> [1::nat, 2, 3]])
     = [(1, ''event''), (2, ''event''), (3, ''event'')] \<and>
   connections (fst (send_progress (\<lambda>c d. c = 2) ''doc'' ''event'' [''doc'' \<mapsto> [1::nat, 2, 3]])) ''doc''
     = [1, 3] \<and>
   fst (send_progress (\<lambda>c d. c = 2) ''doc'' ''event'' [''doc'' \<mapsto> [1::nat, 2, 3]]) ''other'' = None"
  using send_progress_isolates_failures
    [of "\<lambda>c d. c = 2" "''doc''" "''event''" "[''doc'' \<mapsto> [1::nat, 2, 3]]"]
  by (simp add: connections_def)

lemma registry_inv_empty: "registry_inv Map.empty"
  by (simp add: registry_inv_def)

lemma registry_invD:
  "registry_inv reg \<Longrightarrow> reg d = Some s \<Longrightarrow> s \<noteq> [] \<and> distinct s"
  by (simp add: registry_inv_def)

lemma registry_inv_connect:
  assumes inv: "registry_inv reg" and c: "connect accept c doc reg = Inr reg'"
  shows "registry_inv reg'"
  unfolding registry_inv_def
proof (intro allI impI)
  fix d s assume a: "reg' d = Some s"
  from c have reg': "reg' = reg(doc \<mapsto> set_add c (connections reg doc))"
    by (auto simp: connect_def connections_def Let_def split: option.splits if_splits)
  show "s \<noteq> [] \<and> distinct s"
  proof (cases "d = doc")
    case False
    with a reg' have "reg d = Some s" by simp
    with inv show ?thesis by (rule registry_invD)
  next
    case True
    with a reg' have s: "s = set_add c (connections reg doc)" by simp
    have "distinct (connections reg doc)"
      using inv by (auto simp: connections_def dest: registry_invD split: option.splits)
    with s show ?thesis by (auto simp: set_add_def)
  qed
qed

lemma registry_inv_disconnect:
  assumes inv: "registry_inv reg"
  shows "registry_inv (disconnect c doc reg)"
  unfolding registry_inv_def
proof (intro allI impI)
  fix d s assume a: "disconnect c doc reg d = Some s"
  show "s \<noteq> [] \<and> distinct s"
  proof (cases "d = doc")
    case False
    with a have "reg d = Some s"
      by (auto simp: disconnect_def Let_def split: option.splits if_splits)
    with inv show ?thesis by (rule registry_invD)
  next
    case True
    with a obtain x where x: "reg doc = Some x" and s: "s = removeAll c x" and ne: "s \<noteq> []"
      by (auto simp: disconnect_def set_discard_def Let_def split: option.splits if_splits)
    from inv x have "distinct x" by (auto dest: registry_invD)
    with s ne show ?thesis by (simp add: distinct_removeAll)
  qed
qed

lemma registry_inv_send_to_all:
  "registry_inv reg \<Longrightarrow> registry_inv (fst (send_to_all raises doc data cs (reg, calls)))"
  by (induction cs arbitrary: reg calls) (simp_all add: registry_inv_disconnect)

lemma registry_inv_send_progress:
  "registry_inv reg \<Longrightarrow> registry_inv (fst (send_progress raises doc data reg))"
  by (simp add: send_progress_def registry_inv_send_to_all split: option.splits)

lemma registry_inv_apply_op:
  "registry_inv reg \<Longrightarrow> registry_inv (apply_op reg op)"
  by (cases op)
    (auto simp: registry_inv_disconnect registry_inv_send_progress
      dest: registry_inv_connect split: sum.splits)

lemma registry_inv_foldl:
  "registry_inv reg \<Longrightarrow> registry_inv (foldl apply_op reg ops)"
  by (induction ops arbitrary: reg) (simp_all add: registry_inv_apply_op)

text \<open>
  Claim C7. Every document id in the map has a non-empty set of connections: this holds
  of every registry reached from the empty one by \<^verbatim>\<open>connect\<close>,
  \<^verbatim>\<open>disconnect\<close> and \<^verbatim>\<open>send_progress\<close>, and each of the three
  operations preserves it.
\<close>

theorem registry_inv_run_ops:
  "registry_inv (run_ops ops) \<and>
   (registry_inv active_connections \<longrightarrow> registry_inv (apply_op active_connections op))"
  by (simp add: run_ops_def registry_inv_foldl registry_inv_empty registry_inv_apply_op)

theorem registry_inv_run_ops_witness:
  "run_ops [Connect (1::nat) ''d'' None, Connect 2 ''d'' None, Connect 2 ''d'' None,
            SendProgress ''d'' ''event'' (\<lambda>c d. c = 1)] ''d'' = Some [2] \<and>
   run_ops [Connect (1::nat) ''d'' None, Connect 2 ''d'' None,
            SendProgress ''d'' ''event'' (\<lambda>c d. c = 1), Disconnect 2 ''d''] ''d'' = None \<and>
   registry_inv (run_ops [Connect (1::nat) ''d'' None, Connect 2 ''d'' None, Connect 2 ''d'' None,
            SendProgress ''d'' ''event'' (\<lambda>c d. c = 1)])"
proof -
  have a: "run_ops [Connect (1::nat) ''d'' None, Connect 2 ''d'' None, Connect 2 ''d'' None,
            SendProgress ''d'' ''event'' (\<lambda>c d. c = 1)] ''d'' = Some [2]"
    by code_simp
  have b: "run_ops [Connect (1::nat) ''d'' None, Connect 2 ''d'' None,
            SendProgress ''d'' ''event'' (\<lambda>c d. c = 1), Disconnect 2 ''d''] ''d'' = None"
    by code_simp
  have c: "registry_inv (run_ops [Connect (1::nat) ''d'' None, Connect 2 ''d'' None,
      Connect 2 ''d'' None, SendProgress ''d'' ''event'' (\<lambda>c d. c = 1)])"
    using registry_inv_run_ops [of "[Connect (1::nat) ''d'' None, Connect 2 ''d'' None,
      Connect 2 ''d'' None, SendProgress ''d'' ''event'' (\<lambda>c d. c = 1)]" Map.empty "Disconnect 1 ''d''"]
    by (rule conjunct1)
  show ?thesis by (intro conjI a b c)
qed


section \<open>Properties of the embedder\<close>

lemma batch_loop_corresponds:
  "\<forall>batch. \<exists>vs. embed_batch batch = Inr vs \<and> list_all2 R batch vs \<Longrightarrow>
   0 < batch_size \<Longrightarrow> list_all2 R (take i texts) acc \<Longrightarrow>
   \<exists>vs. batch_loop embed_batch texts batch_size i acc = Inr vs \<and> list_all2 R texts vs"
proof (induction embed_batch texts batch_size i acc rule: batch_loop.induct)
  case (1 embed_batch texts batch_size i all_embeddings)
  note ok = "1.prems"(1) and pos = "1.prems"(2) and sofar = "1.prems"(3)
  show ?case
  proof (cases "i < length texts")
    case False
    with sofar show ?thesis
      by (subst batch_loop.simps) simp
  next
    case True
    from ok obtain vs where vs: "embed_batch (take batch_size (drop i texts)) = Inr vs"
      and rel: "list_all2 R (take batch_size (drop i texts)) vs" by blast
    have "take (i + batch_size) texts = take i texts @ take batch_size (drop i texts)"
      by (simp add: take_add)
    with sofar rel have "list_all2 R (take (i + batch_size) texts) (all_embeddings @ vs)"
      by (simp add: list_all2_appendI)
    from "1.IH" [OF _ vs ok pos this] True pos vs show ?thesis
      by (subst batch_loop.simps) simp
  qed
qed

text \<open>
  Claim C4. Let \<open>R text vector\<close> say that a vector is the embedding of a text, and
  let the batch embedder return, for every batch, one vector per text in input order. Then
  for every batch size of at least 1, also one above the number of texts,
  \<^verbatim>\<open>generate_embeddings\<close> returns one embedding per text, and the embedding at
  position \<open>i\<close> is that of text \<open>i\<close>.
\<close>

theorem generate_embeddings_in_order:
  assumes "1 \<le> batch_size"
    and "\<forall>batch. \<exists>vs. embed_batch batch = Inr vs \<and> list_all2 R batch vs"
  shows "\<exists>embeddings. generate_embeddings embed_batch texts batch_size = Inr embeddings \<and>
           length embeddings = length texts \<and>
           (\<forall>i < length texts. R (texts ! i) (embeddings ! i))"
proof -
  have "\<exists>vs. generate_embeddings embed_batch texts batch_size = Inr vs \<and> list_all2 R texts vs"
  proof (cases "texts = []")
    case True
    then show ?thesis by (simp add: generate_embeddings_def)
  next
    case False
    from assms(1) have "0 < nat batch_size" by simp
    from batch_loop_corresponds [OF assms(2) this, of 0 texts "[]"] False assms(1)
    show ?thesis by (simp add: generate_embeddings_def generate_batch_def)
  qed
  then show ?thesis by (auto simp: list_all2_conv_all_nth)
qed

theorem generate_embeddings_in_order_witness:
  "generate_embeddings (\<lambda>b. Inr (map length b)) [''a'', ''bb'', ''ccc''] 2 = Inr [1, 2, 3] \<and>
   generate_embeddings (\<lambda>b. Inr (map length b)) [''a'', ''bb'', ''ccc''] 5 = Inr [1, 2, 3] \<and>
   (\<exists>embeddings. generate_embeddings (\<lambda>b. Inr (map length b)) [''a'', ''bb'', ''ccc''] 5 = Inr embeddings \<and>
      length embeddings = 3 \<and> embeddings ! 2 = length ''ccc'')"
proof -
  have ok: "\<forall>batch. \<exists>vs. (\<lambda>b. Inr (map length b) :: exn + nat list) batch = Inr vs \<and>
              list_all2 (\<lambda>t v. v = length t) batch vs"
    by (simp add: list_all2_conv_all_nth)
  have a: "generate_embeddings (\<lambda>b. Inr (map length b)) [''a'', ''bb'', ''ccc''] 2 = Inr [1, 2, 3]"
    by code_simp
  have b: "generate_embeddings (\<lambda>b. Inr (map length b)) [''a'', ''bb'', ''ccc''] 5 = Inr [1, 2, 3]"
    by code_simp
  from generate_embeddings_in_order [OF _ ok, of 5 "[''a'', ''bb'', ''ccc'']"]
  show ?thesis using a b by simp
qed

section \<open>The token estimate\<close>

lemma round_half_even_of_int: "round_half_even (of_int k) = k"
  by (simp add: round_half_even_def)

lemma round_half_even_ge:
  assumes "of_int m \<le> r" shows "m \<le> round_half_even r"
proof -
  from assms have "m \<le> \<lfloor>r\<rfloor>" by (simp add: le_floor_iff)
  then show ?thesis by (simp add: round_half_even_def Let_def)
qed

lemma round_half_even_le:
  assumes "r \<le> of_int m" shows "round_half_even r \<le> m"
proof (cases "r = of_int m")
  case True
  then show ?thesis by (simp add: round_half_even_of_int)
next
  case False
  with assms have "r < of_int m" by simp
  then have "\<lfloor>r\<rfloor> < m" by (simp add: floor_less_iff)
  then show ?thesis by (simp add: round_half_even_def Let_def)
qed

lemma pow2_neg: "e \<le> 0 \<Longrightarrow> pow2 e = 1 / 2 ^ nat (- e)"
  by (cases "e = 0") (simp_all add: pow2_def)

lemma pow2_nonneg: "0 \<le> e \<Longrightarrow> pow2 e = 2 ^ nat e"
  by (simp add: pow2_def)

text \<open>A value with exponent at most 0 is rounded on a grid of step \<open>1 / 2 ^ n\<close>.\<close>

lemma double_of_grid:
  assumes "0 \<le> x" and "\<lfloor>x\<rfloor> < 2 ^ b" and "b \<le> 53"
  shows "\<exists>n. 53 - b \<le> n \<and> double_of x = of_int (round_half_even (x * 2 ^ n)) / 2 ^ n"
proof -
  define e where "e = bitlen \<lfloor>x\<rfloor> - 53"
  have "bitlen \<lfloor>x\<rfloor> \<le> int b"
    using assms(2) by (simp add: bitlen_le_iff_power)
  then have e: "e \<le> int b - 53" by (simp add: e_def)
  with assms(3) have e0: "e \<le> 0" by simp
  define n where "n = nat (- e)"
  from e e0 have n: "53 - b \<le> n" by (simp add: n_def)
  have "double_of x = of_int (round_half_even (x * 2 ^ n)) / 2 ^ n"
    using e0 by (simp add: double_of_def e_def [symmetric] Let_def pow2_neg pow2_nonneg n_def)
  with n show ?thesis by blast
qed

lemma double_of_nat:
  assumes "w < 2 ^ 53" shows "double_of (of_nat w) = of_nat w"
proof -
  have "\<lfloor>(of_nat w :: rat)\<rfloor> = int w" by simp
  moreover have "int w < 2 ^ 53" using assms by (metis of_nat_less_numeral_power_cancel_iff)
  ultimately have "\<lfloor>(of_nat w :: rat)\<rfloor> < 2 ^ 53" by simp
  from double_of_grid [OF _ this] obtain n
    where d: "double_of (of_nat w) = of_int (round_half_even (of_nat w * 2 ^ n)) / 2 ^ n"
    by auto
  have "(of_nat w :: rat) * 2 ^ n = of_int (int w * 2 ^ n)" by simp
  then have "round_half_even (of_nat w * 2 ^ n) = int w * 2 ^ n"
    by (simp only: round_half_even_of_int)
  with d show ?thesis by simp
qed

lemma float_1_33_bounds: "133 / 100 \<le> float_1_33 \<and> float_1_33 - 133 / 100 \<le> 1 / 2 ^ 53"
  by (simp add: float_1_33_def)

lemma truncated_product:
  assumes w: "w < 2 ^ 44"
  shows "py_int (double_of (double_of (of_nat w) * float_1_33)) = 133 * int w div 100"
proof -
  define k where "k = 133 * int w div 100"
  define x where "x = (of_nat w :: rat) * float_1_33"
  have w53: "w < 2 ^ 53" using w by (rule less_trans) simp
  have wr: "(of_nat w :: rat) < 2 ^ 44" using w by (metis of_nat_less_numeral_power_cancel_iff)
  have wi: "int w < 2 ^ 44" using w by (metis of_nat_less_numeral_power_cancel_iff)
  have k0: "0 \<le> k" by (simp add: k_def)
  have "133 * int w = 100 * k + 133 * int w mod 100" by (simp add: k_def)
  moreover have "0 \<le> 133 * int w mod 100" "133 * int w mod 100 \<le> 99" by simp_all
  ultimately have ki: "100 * k \<le> 133 * int w" "133 * int w \<le> 100 * k + 99" by linarith+
  have "(of_int (100 * k) :: rat) \<le> of_int (133 * int w)" using ki(1) by (simp only: of_int_le_iff)
  then have lo: "(of_int k :: rat) \<le> of_nat w * (133 / 100)" by simp
  have "(of_int (133 * int w) :: rat) \<le> of_int (100 * k + 99)" using ki(2) by (simp only: of_int_le_iff)
  then have hi: "(of_nat w :: rat) * (133 / 100) \<le> of_int k + 99 / 100" by simp
  have x_split: "x = of_nat w * (133 / 100) + of_nat w * (float_1_33 - 133 / 100)"
    by (simp add: x_def algebra_simps)
  have d0: "0 \<le> (of_nat w :: rat) * (float_1_33 - 133 / 100)"
    using float_1_33_bounds by simp
  have "(of_nat w :: rat) * (float_1_33 - 133 / 100) \<le> 2 ^ 44 * (1 / 2 ^ 53)"
    using wr float_1_33_bounds by (intro mult_mono) simp_all
  then have d1: "(of_nat w :: rat) * (float_1_33 - 133 / 100) \<le> 1 / 512" by simp
  have x_lo: "of_int k \<le> x" using lo d0 x_split by linarith
  have x_hi: "x \<le> of_int k + 1 - 1 / 128" using hi d1 x_split by linarith
  have x0: "0 \<le> x" using x_lo k0 by (meson of_int_0_le_iff order_trans)
  have "k < 2 ^ 45"
  proof -
    have "(2 :: int) ^ 44 = 17592186044416" "(2 :: int) ^ 45 = 35184372088832" by simp_all
    with ki(1) wi show ?thesis by linarith
  qed
  moreover have "\<lfloor>x\<rfloor> \<le> k"
  proof -
    have "x < of_int (k + 1)" using x_hi by simp
    then have "\<lfloor>x\<rfloor> < k + 1" by (simp only: floor_less_iff)
    then show ?thesis by simp
  qed
  ultimately have fl: "\<lfloor>x\<rfloor> < 2 ^ 45" by linarith
  from double_of_grid [OF x0 fl] obtain n where n: "8 \<le> n"
    and d: "double_of x = of_int (round_half_even (x * 2 ^ n)) / 2 ^ n" by auto
  have p128: "(1 :: rat) / 2 ^ n \<le> 1 / 128"
  proof -
    have "(2 :: rat) ^ 7 \<le> 2 ^ n" using n by (intro power_increasing) simp_all
    then show ?thesis by (simp add: divide_simps)
  qed
  have "of_int (k * 2 ^ n) \<le> x * 2 ^ n" using x_lo by simp
  then have r_lo: "k * 2 ^ n \<le> round_half_even (x * 2 ^ n)" by (rule round_half_even_ge)
  have "x \<le> of_int k + 1 - 1 / 2 ^ n" using x_hi p128 by linarith
  then have "x * 2 ^ n \<le> (of_int k + 1 - 1 / 2 ^ n) * 2 ^ n" by (intro mult_right_mono) simp_all
  also have "\<dots> = of_int ((k + 1) * 2 ^ n - 1)" by (simp add: algebra_simps)
  finally have r_hi: "round_half_even (x * 2 ^ n) \<le> (k + 1) * 2 ^ n - 1" by (rule round_half_even_le)
  define m where "m = round_half_even (x * 2 ^ n)"
  have y: "double_of x = of_int m / 2 ^ n" using d by (simp add: m_def)
  have "(of_int (k * 2 ^ n) :: rat) \<le> of_int m" using r_lo by (simp only: of_int_le_iff m_def)
  then have y_lo: "of_int k \<le> double_of x" by (simp add: y divide_simps)
  have "(of_int m :: rat) < of_int ((k + 1) * 2 ^ n)" using r_hi by (simp only: of_int_less_iff m_def)
  then have y_hi: "double_of x < of_int k + 1" by (simp add: y divide_simps algebra_simps)
  have "\<lfloor>double_of x\<rfloor> = k" using y_lo y_hi by (rule floor_unique)
  moreover have "0 \<le> double_of x" using y_lo k0 by (meson of_int_0_le_iff order_trans)
  ultimately have "py_int (double_of x) = k" by (simp add: py_int_def)
  then show ?thesis by (simp add: x_def k_def double_of_nat [OF w53])
qed


section \<open>Properties of the chunker\<close>

lemma nodes_to_chunks_index:
  "map chunk_index (nodes_to_chunks b name n nodes l g) = map (\<lambda>i. g + int i) [0..<length nodes]"
proof (induction nodes arbitrary: l g)
  case Nil
  then show ?case by simp
next
  case (Cons nd nodes)
  have "map (\<lambda>i. g + int i) [0..<Suc (length nodes)]
        = g # map (\<lambda>i. g + 1 + int i) [0..<length nodes]"
    by (simp add: map_upt_Suc del: upt_Suc) 
  with Cons show ?case by simp
qed

lemma nodes_to_chunks_tags:
  "map (\<lambda>c. (section_type c, ch_text c)) (nodes_to_chunks b name n nodes l g)
     = map (\<lambda>nd. (name, node_text nd)) nodes"
  by (induction nodes arbitrary: l g) simp_all

lemma nodes_to_chunks_tokens:
  "c \<in> set (nodes_to_chunks b name n nodes l g) \<Longrightarrow> token_count c = estimate_tokens (ch_text c)"
  by (induction nodes arbitrary: l g) auto

lemma length_nodes_to_chunks: "length (nodes_to_chunks b name n nodes l g) = length nodes"
  by (induction nodes arbitrary: l g) simp_all

lemma map_int_upt_append:
  "map int [0..<a + b] = map int [0..<a] @ map (\<lambda>i. int a + int i) [0..<b]"
proof -
  have split: "[0..<a + b] = [0..<a] @ [a..<a + b]" by (rule upt_add_eq_append) simp
  have "[a..<a + b] = map (\<lambda>i. i + a) [0..<b]"
    using map_add_upt [of a b] by (simp only: add.commute)
  then have "map int [a..<a + b] = map int (map (\<lambda>i. i + a) [0..<b])" by (rule arg_cong)
  also have "\<dots> = map (\<lambda>i. int a + int i) [0..<b]" by (simp add: o_def)
  finally show ?thesis by (simp only: split map_append)
qed

lemma chunk_sections_loop_index:
  "chunk_sections_loop sp b secs acc g = Inr cs \<Longrightarrow>
   map chunk_index acc = map int [0..<length acc] \<Longrightarrow> g = int (length acc) \<Longrightarrow>
   map chunk_index cs = map int [0..<length cs]"
proof (induction secs arbitrary: acc g)
  case Nil
  then show ?case by simp
next
  case (Cons sec secs)
  obtain name texts where sec: "sec = (name, texts)" by (cases sec)
  show ?case
  proof (cases "texts = []")
    case True
    with Cons.prems sec show ?thesis by (auto intro: Cons.IH)
  next
    case False
    with Cons.prems(1) sec obtain nodes where
      nodes: "sp (join [CHR 0x0A, CHR 0x0A] texts) (dict_merge b [(''section_type'', VStr name)]) = Inr nodes"
      and rest: "chunk_sections_loop sp b secs (acc @ nodes_to_chunks b name (length nodes) nodes 0 g)
                   (g + int (length nodes)) = Inr cs"
      by (auto simp: Let_def split: sum.splits)
    let ?acc = "acc @ nodes_to_chunks b name (length nodes) nodes 0 g"
    have "map chunk_index ?acc = map int [0..<length ?acc]"
      using Cons.prems(2,3)
      by (simp add: nodes_to_chunks_index length_nodes_to_chunks map_int_upt_append)
    moreover have "g + int (length nodes) = int (length ?acc)"
      using Cons.prems(3) by (simp add: length_nodes_to_chunks)
    ultimately show ?thesis by (rule Cons.IH [OF rest])
  qed
qed

lemma chunk_sections_loop_tags:
  "chunk_sections_loop sp b secs acc g = Inr cs \<Longrightarrow>
   map (\<lambda>c. (section_type c, ch_text c)) cs
     = map (\<lambda>c. (section_type c, ch_text c)) acc
       @ concat (map (section_pieces sp b) (filter (\<lambda>sec. snd sec \<noteq> []) secs))"
proof (induction secs arbitrary: acc g)
  case Nil
  then show ?case by simp
next
  case (Cons sec secs)
  obtain name texts where sec: "sec = (name, texts)" by (cases sec)
  show ?case
  proof (cases "texts = []")
    case True
    with Cons.prems sec Cons.IH [of acc g] show ?thesis by simp
  next
    case False
    with Cons.prems(1) sec obtain nodes where
      nodes: "sp (join [CHR 0x0A, CHR 0x0A] texts) (dict_merge b [(''section_type'', VStr name)]) = Inr nodes"
      and rest: "chunk_sections_loop sp b secs (acc @ nodes_to_chunks b name (length nodes) nodes 0 g)
                   (g + int (length nodes)) = Inr cs"
      by (auto simp: Let_def split: sum.splits)
    from Cons.IH [OF rest] False sec nodes show ?thesis
      by (simp add: nodes_to_chunks_tags section_pieces_def)
  qed
qed

lemma chunk_sections_loop_tokens:
  "chunk_sections_loop sp b secs acc g = Inr cs \<Longrightarrow>
   \<forall>c \<in> set acc. token_count c = estimate_tokens (ch_text c) \<Longrightarrow>
   \<forall>c \<in> set cs. token_count c = estimate_tokens (ch_text c)"
proof (induction secs arbitrary: acc g)
  case Nil
  then show ?case by simp
next
  case (Cons sec secs)
  obtain name texts where sec: "sec = (name, texts)" by (cases sec)
  show ?case
  proof (cases "texts = []")
    case True
    with Cons.prems sec Cons.IH [of acc g] show ?thesis by simp
  next
    case False
    with Cons.prems(1) sec obtain nodes where
      rest: "chunk_sections_loop sp b secs (acc @ nodes_to_chunks b name (length nodes) nodes 0 g)
                   (g + int (length nodes)) = Inr cs"
      by (auto simp: Let_def split: sum.splits)
    have "\<forall>c \<in> set (acc @ nodes_to_chunks b name (length nodes) nodes 0 g).
            token_count c = estimate_tokens (ch_text c)"
      using Cons.prems(2) by (auto dest: nodes_to_chunks_tokens)
    with Cons.IH [OF rest] show ?thesis by blast
  qed
qed

lemma chunk_tables_from_props:
  "chunk_tables_from b ts idx = Inr cs \<Longrightarrow>
   length cs = length ts \<and>
   map chunk_index cs = map (\<lambda>i. idx + int i) [0..<length ts] \<and>
   (\<forall>c \<in> set cs. section_type c = ''table'' \<and> token_count c = estimate_tokens (ch_text c)) \<and>
   map (\<lambda>t. map_of t ''text'') ts = map (\<lambda>c. Some (VStr (ch_text c))) cs"
proof (induction ts arbitrary: idx cs)
  case Nil
  then show ?case by simp
next
  case (Cons t ts)
  from Cons.prems obtain s cs' where
    t: "map_of t ''text'' = Some (VStr s)"
    and rest: "chunk_tables_from b ts (idx + 1) = Inr cs'"
    and cs: "cs = \<lparr>ch_text = s, chunk_index = idx, section_type = ''table'',
                   ch_metadata = dict_merge b
                     [(''section_type'', VStr ''table''), (''table_index'', VInt idx),
                      (''table_metadata'',
                         (case map_of t ''metadata'' of None \<Rightarrow> VDict [] | Some m \<Rightarrow> m))],
                   token_count = estimate_tokens s\<rparr> # cs'"
    by (auto split: option.splits pyval.splits sum.splits)
  have "map (\<lambda>i. idx + int i) [0..<Suc (length ts)]
        = idx # map (\<lambda>i. idx + 1 + int i) [0..<length ts]"
    by (simp add: map_upt_Suc del: upt_Suc)
  with Cons.IH [OF rest] t cs show ?case by simp
qed

text \<open>
  Claim C2, as amended. When stage 3 succeeds, the chunk sequence is the section chunks
  followed by the table chunks. The section chunks carry the indices 0, 1, 2, ... and
  follow the sections in iteration order (empty sections skipped) and, inside a section,
  the order of the splitter's pieces. The table chunks, one per table in table order and
  typed \<^verbatim>\<open>'table'\<close>, carry indices that start again at 0. So the indices are
  contiguous from zero within each of the two passes, not over the whole sequence.
\<close>

theorem chunk_indices_by_pass:
  assumes "create_chunks sp extracted base = Inr all_chunks"
  shows "\<exists>section_chunks table_chunks.
     chunk_sections sp (sections extracted) base = Inr section_chunks \<and>
     chunk_tables (tables extracted) base = Inr table_chunks \<and>
     all_chunks = section_chunks @ table_chunks \<and>
     contiguous_from_zero section_chunks \<and>
     map (\<lambda>c. (section_type c, ch_text c)) section_chunks
       = concat (map (section_pieces sp base) (filter (\<lambda>sec. snd sec \<noteq> []) (sections extracted))) \<and>
     contiguous_from_zero table_chunks \<and>
     length table_chunks = length (tables extracted) \<and>
     (\<forall>c \<in> set table_chunks. section_type c = ''table'') \<and>
     map (\<lambda>t. map_of t ''text'') (tables extracted) = map (\<lambda>c. Some (VStr (ch_text c))) table_chunks"
proof -
  from assms obtain scs tcs where
    s: "chunk_sections sp (sections extracted) base = Inr scs"
    and t: "chunk_tables (tables extracted) base = Inr tcs"
    and a: "all_chunks = scs @ tcs"
    by (auto simp: create_chunks_def split: sum.splits)
  from s have s': "chunk_sections_loop sp base (sections extracted) [] 0 = Inr scs"
    by (simp add: chunk_sections_def)
  have "contiguous_from_zero scs"
    using chunk_sections_loop_index [OF s'] by (simp add: contiguous_from_zero_def)
  moreover have "map (\<lambda>c. (section_type c, ch_text c)) scs
       = concat (map (section_pieces sp base) (filter (\<lambda>sec. snd sec \<noteq> []) (sections extracted)))"
    using chunk_sections_loop_tags [OF s'] by simp
  moreover from t have t': "chunk_tables_from base (tables extracted) 0 = Inr tcs"
    by (simp add: chunk_tables_def)
  note tp = chunk_tables_from_props [OF t']
  have "contiguous_from_zero tcs"
    using tp by (simp add: contiguous_from_zero_def)
  ultimately show ?thesis using s t a tp by auto
qed

text \<open>
  Claim C8, as amended. The token count of every chunk, from a section piece or a table,
  is \<^verbatim>\<open>int(word_count * 1.33)\<close>, where \<open>word_count\<close> is the number of words
  \<^verbatim>\<open>text.split()\<close> returns: the double product truncated, which for fewer than
  \<open>2^44\<close> words is \<open>133 * word_count div 100\<close>, the product rounded down and not to
  the nearest integer.
\<close>

theorem token_count_truncates:
  assumes "create_chunks sp extracted base = Inr all_chunks"
    and "c \<in> set all_chunks"
    and "length (py_split (ch_text c)) < 2 ^ 44"
  shows "token_count c = estimate_tokens (ch_text c) \<and>
         token_count c = 133 * int (length (py_split (ch_text c))) div 100"
proof -
  from assms(1) obtain scs tcs where
    s: "chunk_sections_loop sp base (sections extracted) [] 0 = Inr scs"
    and t: "chunk_tables_from base (tables extracted) 0 = Inr tcs"
    and a: "all_chunks = scs @ tcs"
    by (auto simp: create_chunks_def chunk_sections_def chunk_tables_def split: sum.splits)
  have "\<forall>c \<in> set scs. token_count c = estimate_tokens (ch_text c)"
    using chunk_sections_loop_tokens [OF s] by simp
  moreover have "\<forall>c \<in> set tcs. token_count c = estimate_tokens (ch_text c)"
    using chunk_tables_from_props [OF t] by simp
  ultimately have tc: "token_count c = estimate_tokens (ch_text c)"
    using assms(2) a by auto
  have "estimate_tokens (ch_text c) = 133 * int (length (py_split (ch_text c))) div 100"
    using truncated_product [OF assms(3)] by (simp add: estimate_tokens_def Let_def)
  with tc show ?thesis by simp
qed


text \<open>
  For evaluation, the estimate is computed through the integer quotient where
  \<open>truncated_product\<close> applies.
\<close>

lemma estimate_tokens_code [code]:
  "estimate_tokens s =
     (let words = int (length (py_split s))
      in if words < 2 ^ 44 then 133 * words div 100
         else py_int (double_of (double_of (of_int words) * float_1_33)))"
proof (cases "length (py_split s) < 2 ^ 44")
  case True
  then have "int (length (py_split s)) < 2 ^ 44"
    by (metis of_nat_less_numeral_power_cancel_iff)
  with truncated_product [OF True] show ?thesis
    by (simp add: estimate_tokens_def Let_def)
next
  case False
  then have "\<not> int (length (py_split s)) < 2 ^ 44"
    by (metis of_nat_less_numeral_power_cancel_iff)
  then show ?thesis by (simp add: estimate_tokens_def Let_def)
qed

text \<open>
  The no-break space and the next-line control separate words, as they do for
  \<^verbatim>\<open>str.split()\<close>: the text \<open>a\<close>, U+00A0, \<open>b\<close> has two words and token count 2.
\<close>

lemma py_split_no_break_space:
  "py_split [CHR ''a'', CHR 0xA0, CHR ''b''] = [''a'', ''b''] \<and>
   py_split [CHR ''a'', CHR 0x85, CHR ''b'', CHR 0x0A] = [''a'', ''b''] \<and>
   estimate_tokens [CHR ''a'', CHR 0xA0, CHR ''b''] = 2"
  by code_simp

lemma example_chunks_ok: "\<not> isl (create_chunks example_split example_content [])"
  by code_simp

lemma example_chunk_indices:
  "map chunk_index (projr (create_chunks example_split example_content [])) = [0, 1, 0]"
  by code_simp

lemma example_token_counts:
  "map (\<lambda>c. (ch_text c, token_count c))
     (projr (create_chunks example_split example_content []))
   = [(''Alpha beta'', 2), (''tail'', 1), (''t1 t2'', 2)]"
  by code_simp


theorem chunk_indices_by_pass_witness:
  "\<exists>all_chunks section_chunks table_chunks.
     create_chunks example_split example_content [] = Inr all_chunks \<and>
     all_chunks = section_chunks @ table_chunks \<and>
     contiguous_from_zero section_chunks \<and>
     contiguous_from_zero table_chunks \<and>
     length table_chunks = 1 \<and>
     map chunk_index all_chunks = [0, 1, 0]"
proof -
  define all_chunks where "all_chunks = projr (create_chunks example_split example_content [])"
  have r: "create_chunks example_split example_content [] = Inr all_chunks"
    unfolding all_chunks_def using example_chunks_ok by (rule sum.collapse(2) [symmetric])
  have i: "map chunk_index all_chunks = [0, 1, 0]"
    unfolding all_chunks_def by (rule example_chunk_indices)
  have t: "length (tables example_content) = 1" by (simp add: example_content_def)
  from chunk_indices_by_pass [OF r] obtain scs tcs where
    "all_chunks = scs @ tcs" "contiguous_from_zero scs" "contiguous_from_zero tcs"
    "length tcs = length (tables example_content)"
    by (elim exE conjE) (rule that)
  with r i t show ?thesis by (intro exI [of _ all_chunks] exI [of _ scs] exI [of _ tcs] conjI) simp_all
qed


text \<open>
  The claim as stated fails on a document with one section of two pieces and one table:
  the indices are 0, 1, 0.
\<close>

theorem chunk_index_not_global_counterexample:
  "\<not> isl (create_chunks example_split example_content []) \<and>
   map chunk_index (projr (create_chunks example_split example_content [])) = [0, 1, 0] \<and>
   \<not> contiguous_from_zero (projr (create_chunks example_split example_content [])) \<and>
   \<not> distinct (map chunk_index (projr (create_chunks example_split example_content [])))"
proof -
  have l: "length (projr (create_chunks example_split example_content [])) = 3"
    using arg_cong [OF example_chunk_indices, of length] by simp
  have "map int [0..<3] = [0, 1, 2]" by (simp add: upt_rec)
  with example_chunk_indices l example_chunks_ok show ?thesis
    by (simp add: contiguous_from_zero_def)
qed


theorem token_count_truncates_witness:
  "create_chunks example_split example_content []
     = Inr (projr (create_chunks example_split example_content [])) \<and>
   hd (projr (create_chunks example_split example_content []))
     \<in> set (projr (create_chunks example_split example_content [])) \<and>
   length (py_split (ch_text (hd (projr (create_chunks example_split example_content []))))) = 2 \<and>
   token_count (hd (projr (create_chunks example_split example_content []))) = 2"
proof -
  define all_chunks where "all_chunks = projr (create_chunks example_split example_content [])"
  have r: "create_chunks example_split example_content [] = Inr all_chunks"
    unfolding all_chunks_def using example_chunks_ok by (rule sum.collapse(2) [symmetric])
  have "map chunk_index all_chunks = [0, 1, 0]"
    unfolding all_chunks_def by (rule example_chunk_indices)
  then have "all_chunks \<noteq> []" by auto
  then have m: "hd all_chunks \<in> set all_chunks" by simp
  have w: "length (py_split (ch_text (hd all_chunks))) = 2"
    unfolding all_chunks_def by code_simp
  then have b: "length (py_split (ch_text (hd all_chunks))) < 2 ^ 44" by simp
  from token_count_truncates [OF r m b] w have "token_count (hd all_chunks) = 2" by simp
  with r m w show ?thesis unfolding all_chunks_def by (intro conjI)
qed


lemma rounded_tokens_two_words:
  assumes "length (py_split s) = 2"
  shows "rounded_tokens s = 3"
proof -
  have two: "double_of (of_int 2) = 2"
    using double_of_nat [of 2] by simp
  have fl: "\<lfloor>(2 :: rat) * float_1_33\<rfloor> = 2"
    by (rule floor_unique) (simp_all add: float_1_33_def)
  have bl: "bitlen 2 = 2" by (simp add: bitlen_alt_def)
  have "(2 :: rat) * float_1_33 * pow2 51 = of_int 5989787504402760"
    by (simp add: float_1_33_def pow2_def)
  then have "round_half_even ((2 :: rat) * float_1_33 * pow2 51) = 5989787504402760"
    by (simp only: round_half_even_of_int)
  then have d: "double_of (2 * float_1_33) = 2 * float_1_33"
    by (simp add: double_of_def fl bl Let_def) (simp add: pow2_def float_1_33_def)
  have "round_half_even (2 * float_1_33) = 3"
    by (simp add: round_half_even_def fl Let_def) (simp add: float_1_33_def)
  with assms two d show ?thesis by (simp add: rounded_tokens_def Let_def)
qed

text \<open>
  The claim as stated fails on the same document: the chunk \<^verbatim>\<open>'Alpha beta'\<close> has
  two words and token count 2, where \<^verbatim>\<open>round(2 * 1.33)\<close> is 3.
\<close>

theorem token_count_not_rounded_counterexample:
  "\<not> isl (create_chunks example_split example_content []) \<and>
   map (\<lambda>c. (ch_text c, token_count c))
     (projr (create_chunks example_split example_content []))
   = [(''Alpha beta'', 2), (''tail'', 1), (''t1 t2'', 2)] \<and>
   rounded_tokens ''Alpha beta'' = 3"
proof -
  have "length (py_split ''Alpha beta'') = 2" by code_simp
  then have "rounded_tokens ''Alpha beta'' = 3" by (rule rounded_tokens_two_words)
  with example_chunks_ok example_token_counts show ?thesis by (intro conjI)
qed

section \<open>Properties of the pipeline\<close>

lemma wp_returns [simp]: "wp (returns x) Q s = Q (Inr x) s"
  by (simp add: wp_def returns_def)

lemma wp_raise [simp]: "wp (raise e) Q s = Q (Inl e) s"
  by (simp add: wp_def raise_def)

lemma wp_call [simp]: "wp (call r) Q s = Q r s"
  by (simp add: wp_def call_def)

lemma wp_modify_db [simp]: "wp (modify_db f) Q s = Q (Inr ()) (s\<lparr>db := f (db s)\<rparr>)"
  by (simp add: wp_def modify_db_def)

lemma wp_and_then [simp]:
  "wp (and_then m f) Q s =
     wp m (\<lambda>r s'. case r of Inl e \<Rightarrow> Q (Inl e) s' | Inr a \<Rightarrow> wp (f a) Q s') s"
  by (simp add: wp_def and_then_def split: prod.splits sum.splits)

lemma wp_update_progress_None [simp]:
  "wp (update_progress None stg prog err) Q s = Q (Inr ()) s"
  by (simp add: wp_def update_progress_def)

lemma wp_update_progress_Some [simp]:
  "wp (update_progress (Some cb) stg prog err) Q s =
     (case cb \<lparr>stage = stage_value stg, progress = prog, error = err\<rparr> of
        None \<Rightarrow> Q (Inr ())
                 (s\<lparr>published := published s @ [\<lparr>stage = stage_value stg, progress = prog, error = err\<rparr>]\<rparr>)
      | Some e \<Rightarrow> Q (Inl e)
                 (s\<lparr>published := published s @ [\<lparr>stage = stage_value stg, progress = prog, error = err\<rparr>]\<rparr>))"
  by (simp add: wp_def update_progress_def Let_def split: option.splits)

lemma wp_process_document:
  "wp (process_document P document_id file_path project_id is_primary callback now) Q s =
     wp (try_block P document_id file_path project_id is_primary callback now)
       (\<lambda>r s'. case r of Inr x \<Rightarrow> Q (Inr x) s'
                | Inl e \<Rightarrow> wp (except_block document_id callback e) Q s') s"
  by (simp add: wp_def process_document_def split: prod.splits sum.splits)


lemma wp_try_block:
  "wp (try_block P document_id file_path project_id is_primary callback now) Q s =
     (case documents (db s) document_id of
        None \<Rightarrow> Q (Inl (ValueError (''Document '' @ document_id @ '' not found''))) s
      | Some document \<Rightarrow>
          wp (and_then (modify_db (\<lambda>d. commit (update_document document_id
                        (\<lambda>document. document\<lparr>processing_status := ''processing''\<rparr>) d)))
           (\<lambda>_. and_then (update_progress callback EXTRACTING 20 None)
           (\<lambda>_. and_then (call (extractor_extract P file_path))
           (\<lambda>extracted. and_then (update_progress callback CLASSIFYING 35 None)
           (\<lambda>_. let domains = classify (full_text extracted) 2;
                    technical_terms = extract_technical_terms (full_text extracted) 20;
                    cpc_hints = get_cpc_hints (hint_order P) domains
                in and_then (update_progress callback CHUNKING 50 None)
           (\<lambda>_. let base_metadata =
                      base_metadata_of document_id project_id is_primary domains cpc_hints
                in and_then (call (create_chunks (get_nodes P) extracted base_metadata))
           (\<lambda>all_chunks. and_then (update_progress callback EMBEDDING 70 None)
           (\<lambda>_. and_then (call (generate_embeddings (get_text_embedding_batch P) (map ch_text all_chunks) 32))
           (\<lambda>embeddings. and_then (update_progress callback STORING 85 None)
           (\<lambda>_. and_then (modify_db (store_results P document_id now extracted domains
                                      technical_terms cpc_hints all_chunks embeddings))
           (\<lambda>_. and_then (update_progress callback COMPLETE 100 None)
           (\<lambda>_. returns
                  \<lparr>res_status = ''success'',
                   res_document_id = document_id,
                   chunks_created = length all_chunks,
                   res_domains = domains,
                   res_has_tables = has_tables extracted\<rparr>)))))))))))) Q s)"
  by (simp add: wp_def try_block_def raise_def split: option.splits)

lemma terminal_stage_value:
  "terminal \<lparr>stage = stage_value stg, progress = p, error = e\<rparr> = (stg = COMPLETE \<or> stg = FAILED)"
  by (cases stg) (simp_all add: terminal_def)


lemma map_of_dict_merge_other:
  "k \<notin> fst ` set entries \<Longrightarrow> map_of (dict_merge d entries) k = map_of d k"
proof (induction entries arbitrary: d)
  case Nil
  then show ?case by (simp add: dict_merge_def)
next
  case (Cons entry entries)
  obtain k' v where entry: "entry = (k', v)" by (cases entry)
  from Cons.prems entry have "k \<noteq> k'" and rest: "k \<notin> fst ` set entries" by auto
  have "map_of (dict_merge d (entry # entries)) k = map_of (dict_merge (AList.update k' v d) entries) k"
    by (simp add: dict_merge_def entry)
  also have "\<dots> = map_of (AList.update k' v d) k" by (rule Cons.IH [OF rest])
  also have "\<dots> = map_of d k" using \<open>k \<noteq> k'\<close> by (simp add: update_conv')
  finally show ?case .
qed

lemma map_of_completed_metadata:
  "k \<notin> set derived_keys \<Longrightarrow>
   map_of (completed_metadata P old n domains terms hints tables_found) k = map_of old k"
  unfolding completed_metadata_def
  by (rule map_of_dict_merge_other) (simp add: derived_keys_def)

text \<open>
  Claim C5. After a run that returns its result, every key that is not one of the seven
  keys the pipeline writes has in the document's metadata the value it had before the
  run (and a key that was absent is still absent): the update merges, it does not replace.
\<close>

theorem metadata_merge_keeps_other_keys:
  assumes run: "process_document P document_id file_path project_id is_primary callback now s
                  = (Inr result, s')"
    and doc: "documents (db s) document_id = Some document"
    and key: "k \<notin> set derived_keys"
  shows "\<exists>document'. documents (db s') document_id = Some document' \<and>
           map_of (doc_metadata document') k = map_of (doc_metadata document) k"
proof -
  have "wp (process_document P document_id file_path project_id is_primary callback now)
          (\<lambda>r s'. case r of
                     Inl e \<Rightarrow> True
                   | Inr x \<Rightarrow> \<exists>document'. documents (db s') document_id = Some document' \<and>
                       map_of (doc_metadata document') k = map_of (doc_metadata document) k) s"
    using doc key
    by (cases callback)
      (simp_all add: wp_process_document wp_try_block except_block_def Let_def
          store_results_def update_document_def commit_def add_all_def map_of_completed_metadata
        split: option.splits sum.splits)
  with run show ?thesis by (simp add: wp_def)
qed



lemma example_extract: "extractor_extract example_pipeline path = Inr example_content"
  by (simp add: example_pipeline_def)

lemma example_create_chunks: "create_chunks example_split example_content b \<noteq> Inl e"
  by (simp add: create_chunks_def chunk_sections_def chunk_tables_def example_content_def
      example_split_def Let_def)

lemma example_embeddings:
  "generate_embeddings (\<lambda>batch. Inr (map length batch)) texts 32 \<noteq> Inl e"
proof -
  have "\<forall>batch. \<exists>vs. (Inr (map length batch) :: exn + nat list) = Inr vs \<and>
          list_all2 (\<lambda>t v. v = length t) batch vs"
    by (simp add: list_all2_conv_all_nth)
  from batch_loop_corresponds [OF this, of 32 0 texts "[]"]
  show ?thesis by (auto simp: generate_embeddings_def generate_batch_def)
qed

lemma example_components [simp]:
  "get_nodes example_pipeline = example_split"
  "get_text_embedding_batch example_pipeline = (\<lambda>batch. Inr (map length batch))"
  "documents (db example_state) ''d1'' = Some example_document"
  "published example_state = []"
  "extractor_extract failing_pipeline path = Inl (ExternalError ''cannot parse'')"
  by (simp_all add: example_pipeline_def example_state_def failing_pipeline_def)


lemma example_run_delivering:
  "wp (process_document example_pipeline ''d1'' ''/tmp/a.pdf'' ''p1'' False (Some delivering) 7)
     (\<lambda>r s'. \<not> isl r \<and>
        map stage (published s')
          = [''extracting'', ''classifying'', ''chunking'', ''embedding'', ''storing'', ''complete''])
     example_state"
  by (simp add: wp_process_document wp_try_block Let_def example_extract delivering_def
        example_create_chunks example_embeddings split: sum.splits)

lemma example_run_raising_on_complete:
  "wp (process_document example_pipeline ''d1'' ''/tmp/a.pdf'' ''p1'' False
         (Some raising_on_complete) 7)
     (\<lambda>r s'. r = Inl (ExternalError ''connection closed'') \<and>
        map stage (published s')
          = [''extracting'', ''classifying'', ''chunking'', ''embedding'', ''storing'',
             ''complete'', ''failed''] \<and>
        map_option processing_status (documents (db s') ''d1'') = Some ''failed'')
     example_state"
  by (simp add: wp_process_document wp_try_block except_block_def Let_def example_extract
        raising_on_complete_def example_create_chunks example_embeddings
        store_results_def update_document_def commit_def add_all_def
        split: sum.splits)



lemma wp_fst_snd: "wp m Q s \<Longrightarrow> Q (fst (m s)) (snd (m s))"
  by (simp add: wp_def split_beta)



text \<open>
  A callback that raises on \<^verbatim>\<open>complete\<close> is called with \<^verbatim>\<open>complete\<close> and then,
  from the handler, with \<^verbatim>\<open>failed\<close>; the document ends up marked failed.
\<close>

lemma complete_then_failed_example:
  "fst (example_run example_pipeline (Some raising_on_complete))
     = Inl (ExternalError ''connection closed'') \<and>
   map stage (published (snd (example_run example_pipeline (Some raising_on_complete))))
     = [''extracting'', ''classifying'', ''chunking'', ''embedding'', ''storing'',
        ''complete'', ''failed'']"
  using wp_fst_snd [OF example_run_raising_on_complete] by (simp add: example_run_def)

theorem metadata_merge_keeps_other_keys_witness:
  "''original_filename'' \<notin> set derived_keys \<and>
   documents (db example_state) ''d1'' = Some example_document \<and>
   \<not> isl (fst (example_run example_pipeline (Some delivering))) \<and>
   (\<exists>document'.
      documents (db (snd (example_run example_pipeline (Some delivering)))) ''d1'' = Some document' \<and>
      map_of (doc_metadata document') ''original_filename'' = Some (VStr ''a.pdf''))"
proof -
  have k: "''original_filename'' \<notin> set derived_keys" by (simp add: derived_keys_def)
  have doc: "documents (db example_state) ''d1'' = Some example_document" by simp
  have ok: "\<not> isl (fst (example_run example_pipeline (Some delivering)))"
    using wp_fst_snd [OF example_run_delivering] by (simp add: example_run_def)
  then have r: "process_document example_pipeline ''d1'' ''/tmp/a.pdf'' ''p1'' False (Some delivering) 7
             example_state
           = (Inr (projr (fst (example_run example_pipeline (Some delivering)))),
              snd (example_run example_pipeline (Some delivering)))"
    by (simp add: example_run_def prod_eq_iff)
  have m: "map_of (doc_metadata example_document) ''original_filename'' = Some (VStr ''a.pdf'')"
    by (simp add: example_document_def)
  from metadata_merge_keeps_other_keys [OF r doc k] m k doc ok show ?thesis
    by (intro conjI) simp_all
qed



end
